theory Spec2Isabelle
  imports Main "HOL-Library.Word"
begin

section \<open>JavaScript values\<close>

text \<open>
  A JavaScript string is a sequence of UTF-16 code units; \<open>split\<close>, \<open>includes\<close> and a
  regular expression without the \<open>u\<close> flag all work on code units. ASCII literals of the
  source are written \<open>js ''...''\<close>.
\<close>

type_synonym code_unit = "16 word"
type_synonym jsstring = "code_unit list"

definition js :: "string \<Rightarrow> jsstring" where
  "js s = map (\<lambda>c. word_of_nat (of_char c)) s"

text \<open>The line feed \<open>'\n'\<close>.\<close>

definition NL :: code_unit where
  "NL = 10"

text \<open>\<open>a || b\<close> on an optional string: \<open>undefined\<close> and \<open>''\<close> are falsy.\<close>

fun or_str :: "jsstring option \<Rightarrow> jsstring \<Rightarrow> jsstring" where
  "or_str None d = d"
| "or_str (Some s) d = (if s = [] then d else s)"

text \<open>\<open>a || b\<close> on an optional number: \<open>undefined\<close> and \<open>0\<close> are falsy.\<close>

fun or_num :: "int option \<Rightarrow> int \<Rightarrow> int" where
  "or_num None d = d"
| "or_num (Some n) d = (if n = 0 then d else n)"

text \<open>\<open>a || false\<close> on an optional boolean.\<close>

fun or_false :: "bool option \<Rightarrow> bool" where
  "or_false None = False"
| "or_false (Some b) = b"

text \<open>\<open>a || []\<close> on an optional array (every array, also the empty one, is truthy).\<close>

fun or_empty :: "'a list option \<Rightarrow> 'a list" where
  "or_empty None = []"
| "or_empty (Some xs) = xs"

section \<open>String operations used by the Reference Extractor\<close>

fun starts_with :: "jsstring \<Rightarrow> jsstring \<Rightarrow> bool" where
  "starts_with s [] = True"
| "starts_with [] (p # ps) = False"
| "starts_with (c # cs) (p # ps) = (c = p \<and> starts_with cs ps)"

text \<open>\<open>s.includes(pat)\<close>: \<open>pat\<close> occurs at some position of \<open>s\<close>.\<close>

fun str_includes :: "jsstring \<Rightarrow> jsstring \<Rightarrow> bool" where
  "str_includes [] pat = starts_with [] pat"
| "str_includes (c # cs) pat = (starts_with (c # cs) pat \<or> str_includes cs pat)"

text \<open>
  \<open>s.split(sep)\<close> for a separator of one code unit: the pieces between the separators,
  the empty string giving one empty piece. \<open>cur\<close> is the piece being read.
\<close>

fun split_acc :: "code_unit \<Rightarrow> jsstring \<Rightarrow> jsstring \<Rightarrow> jsstring list" where
  "split_acc sep cur [] = [cur]"
| "split_acc sep cur (c # cs) =
     (if c = sep then cur # split_acc sep [] cs else split_acc sep (cur @ [c]) cs)"

definition split :: "code_unit \<Rightarrow> jsstring \<Rightarrow> jsstring list" where
  "split sep s = split_acc sep [] s"

text \<open>\<open>lines.join(sep)\<close>.\<close>

fun join :: "code_unit \<Rightarrow> jsstring list \<Rightarrow> jsstring" where
  "join sep [] = []"
| "join sep [l] = l"
| "join sep (l # ls) = l @ sep # join sep ls"

section \<open>The regular expression of the citation lines\<close>

text \<open>
  The pattern \<^verbatim>\<open>/^(\d+)\.\s+(.+)\s*\n\s+(.+)/\<close> is a concatenation of quantified
  character classes, anchored at the start of the string. A piece is a class, its
  quantifier, and whether it is a capture group. The matcher backtracks as the
  ECMAScript one does: a greedy quantifier tries the longest run first, and the first
  alternative that lets the rest of the pattern match wins.
\<close>

datatype char_class = Digit | Whitespace | AnyChar | Literal code_unit

fun class_matches :: "char_class \<Rightarrow> code_unit \<Rightarrow> bool" where
  "class_matches Digit c = (48 \<le> c \<and> c \<le> 57)"
| "class_matches Whitespace c =
     (c = 9 \<or> c = 10 \<or> c = 11 \<or> c = 12 \<or> c = 13 \<or> c = 32 \<or> c = 0xA0 \<or> c = 0x1680
      \<or> (0x2000 \<le> c \<and> c \<le> 0x200A) \<or> c = 0x2028 \<or> c = 0x2029 \<or> c = 0x202F
      \<or> c = 0x205F \<or> c = 0x3000 \<or> c = 0xFEFF)"
| "class_matches AnyChar c = (c \<noteq> 10 \<and> c \<noteq> 13 \<and> c \<noteq> 0x2028 \<and> c \<noteq> 0x2029)"
| "class_matches (Literal d) c = (c = d)"

datatype quantifier = Once | Plus | Star

type_synonym piece = "char_class \<times> quantifier \<times> bool"

text \<open>The lengths a piece may consume at the head of \<open>s\<close>, in the order they are tried.\<close>

definition run_lengths :: "char_class \<Rightarrow> quantifier \<Rightarrow> jsstring \<Rightarrow> nat list" where
  "run_lengths cl q s =
     (let n = length (takeWhile (class_matches cl) s) in
      case q of
        Once \<Rightarrow> (if 1 \<le> n then [1] else [])
      | Plus \<Rightarrow> rev [1..<Suc n]
      | Star \<Rightarrow> rev [0..<Suc n])"

fun first_some :: "('a \<Rightarrow> 'b option) \<Rightarrow> 'a list \<Rightarrow> 'b option" where
  "first_some f [] = None"
| "first_some f (x # xs) = (case f x of Some r \<Rightarrow> Some r | None \<Rightarrow> first_some f xs)"

text \<open>The captured groups of the match of the pieces at the start of \<open>s\<close>, if there is one.\<close>

primrec match_pieces :: "piece list \<Rightarrow> jsstring \<Rightarrow> jsstring list option" where
  "match_pieces [] s = Some []"
| "match_pieces (p # ps) s =
     first_some
       (\<lambda>k. case match_pieces ps (drop k s) of
               None \<Rightarrow> None
             | Some gs \<Rightarrow> Some (if snd (snd p) then take k s # gs else gs))
       (run_lengths (fst p) (fst (snd p)) s)"

definition ref_regex :: "piece list" where
  "ref_regex =
     [(Digit, Plus, True), (Literal 46, Once, False), (Whitespace, Plus, False),
      (AnyChar, Plus, True), (Whitespace, Star, False), (Literal NL, Once, False),
      (Whitespace, Plus, False), (AnyChar, Plus, True)]"

text \<open>\<open>line.match(...)\<close>: \<open>None\<close> is \<open>null\<close>, \<open>Some [g1, g2, g3]\<close> the groups 1 to 3.\<close>

definition ref_match :: "jsstring \<Rightarrow> jsstring list option" where
  "ref_match line = match_pieces ref_regex line"

section \<open>Reference Extractor (ChatInterface.vue)\<close>

record Reference =
  source :: jsstring
  content_preview :: jsstring

text \<open>The marker \<^verbatim>\<open>**\<close>, the four ideographs U+53C2 U+8003 U+6587 U+6863, \<^verbatim>\<open>:**\<close>.\<close>

definition marker :: jsstring where
  "marker = [42, 42, 0x53C2, 0x8003, 0x6587, 0x6863, 58, 42, 42]"

definition checkHasReferences :: "jsstring \<Rightarrow> bool" where
  "checkHasReferences content = str_includes content marker"

text \<open>
  The loop of \<open>extractReferences\<close> over the lines, with its local variables
  \<open>inReferenceSection\<close> and \<open>references\<close>.
\<close>

fun extract_loop :: "jsstring list \<Rightarrow> bool \<Rightarrow> Reference list \<Rightarrow> Reference list" where
  "extract_loop [] inReferenceSection refs = refs"
| "extract_loop (line # rest) inReferenceSection refs =
     (if str_includes line marker then extract_loop rest True refs
      else if inReferenceSection then
        (case ref_match line of
           Some [g1, g2, g3] \<Rightarrow>
             extract_loop rest inReferenceSection
               (refs @ [\<lparr>source = g2, content_preview = g3\<rparr>])
         | _ \<Rightarrow> extract_loop rest inReferenceSection refs)
      else extract_loop rest inReferenceSection refs)"

definition extractReferences :: "jsstring \<Rightarrow> Reference list" where
  "extractReferences content = extract_loop (split NL content) False []"

text \<open>The object \<open>{ text, references }\<close> that \<open>parseReferences\<close> returns.\<close>

record parsed =
  parsed_text :: jsstring
  parsed_references :: "Reference list"

text \<open>
  The loop of \<open>parseReferences\<close>, with its local variables \<open>inReferenceSection\<close>,
  \<open>textLines\<close> and \<open>references\<close>.
\<close>

fun parse_loop ::
  "jsstring list \<Rightarrow> bool \<Rightarrow> jsstring list \<Rightarrow> Reference list \<Rightarrow> jsstring list \<times> Reference list"
where
  "parse_loop [] inReferenceSection textLines refs = (textLines, refs)"
| "parse_loop (line # rest) inReferenceSection textLines refs =
     (if str_includes line marker then parse_loop rest True textLines refs
      else if inReferenceSection then
        (case ref_match line of
           Some [g1, g2, g3] \<Rightarrow>
             parse_loop rest inReferenceSection textLines
               (refs @ [\<lparr>source = g2, content_preview = g3\<rparr>])
         | _ \<Rightarrow> parse_loop rest inReferenceSection textLines refs)
      else parse_loop rest inReferenceSection (textLines @ [line]) refs)"

definition parseReferences :: "jsstring \<Rightarrow> parsed" where
  "parseReferences content =
     (case parse_loop (split NL content) False [] [] of
        (textLines, refs) \<Rightarrow> \<lparr>parsed_text = join NL textLines, parsed_references = refs\<rparr>)"

section \<open>Message Store (stores/chat.ts)\<close>

text \<open>
  \<open>ChatMessage\<close> of types/chat.ts. An optional field is an \<open>option\<close>, \<open>None\<close> being
  \<open>undefined\<close>; a \<open>Date\<close> is its time value in milliseconds. The fields \<open>id\<close>, \<open>type\<close>,
  \<open>content\<close>, \<open>timestamp\<close> and \<open>references\<close> carry the prefix \<open>msg_\<close>.
\<close>

datatype role = User | Ai

record ChatMessage =
  msg_id :: jsstring
  msg_type :: role
  msg_content :: jsstring
  msg_timestamp :: nat
  hasReferences :: "bool option"
  msg_references :: "Reference list option"
  isStreaming :: "bool option"
  streamId :: "jsstring option"
  feedbackSubmitted :: "bool option"

record chat_store =
  messages :: "ChatMessage list"
  isLoading :: bool
  streamingMessage :: "ChatMessage option"

definition init_store :: chat_store where
  "init_store = \<lparr>messages = [], isLoading = False, streamingMessage = None\<rparr>"

definition addMessage :: "ChatMessage \<Rightarrow> chat_store \<Rightarrow> chat_store" where
  "addMessage m st = st\<lparr>messages := messages st @ [m]\<rparr>"

text \<open>
  \<open>addOrUpdateStreamingMessage(content, isComplete, streamId, references?)\<close>. The
  identifier built from \<open>Date.now()\<close> and \<open>Math.random()\<close> and the \<open>new Date()\<close> of a
  created message are the arguments \<open>fresh_id\<close> and \<open>now\<close>.
  \<open>references && references.length > 0\<close> is \<open>undefined\<close> when \<open>references\<close> is.
\<close>

definition addOrUpdateStreamingMessage ::
  "jsstring \<Rightarrow> bool \<Rightarrow> jsstring \<Rightarrow> Reference list option \<Rightarrow> jsstring \<Rightarrow> nat \<Rightarrow>
   chat_store \<Rightarrow> chat_store"
where
  "addOrUpdateStreamingMessage content isComplete sid refs fresh_id now st =
     (case streamingMessage st of
        Some sm \<Rightarrow>
          (let sm1 = sm\<lparr>msg_content := content\<rparr> in
           if isComplete then
             (let sm2 = sm1\<lparr>isStreaming := Some False,
                            hasReferences := map_option (\<lambda>r. 0 < length r) refs,
                            msg_references := Some (or_empty refs)\<rparr>
              in st\<lparr>messages := messages st @ [sm2], streamingMessage := None\<rparr>)
           else st\<lparr>streamingMessage := Some sm1\<rparr>)
      | None \<Rightarrow>
          (if \<not> isComplete then
             st\<lparr>streamingMessage := Some
               \<lparr>msg_id = fresh_id, msg_type = Ai, msg_content = content, msg_timestamp = now,
                hasReferences = Some False, msg_references = Some (or_empty refs),
                isStreaming = Some True, streamId = Some sid, feedbackSubmitted = None\<rparr>\<rparr>
           else st))"

definition clearMessages :: "chat_store \<Rightarrow> chat_store" where
  "clearMessages st = st\<lparr>messages := [], streamingMessage := None\<rparr>"

text \<open>The operations of the store that change the message list or the streaming slot.\<close>

datatype store_op =
    AddMessage ChatMessage
  | AddOrUpdateStreamingMessage jsstring bool jsstring "Reference list option" jsstring nat
  | ClearMessages

fun apply_store_op :: "store_op \<Rightarrow> chat_store \<Rightarrow> chat_store" where
  "apply_store_op (AddMessage m) st = addMessage m st"
| "apply_store_op (AddOrUpdateStreamingMessage content isComplete sid refs fresh_id now) st =
     addOrUpdateStreamingMessage content isComplete sid refs fresh_id now st"
| "apply_store_op ClearMessages st = clearMessages st"

fun run_store_ops :: "store_op list \<Rightarrow> chat_store \<Rightarrow> chat_store" where
  "run_store_ops [] st = st"
| "run_store_ops (x # xs) st = run_store_ops xs (apply_store_op x st)"

text \<open>A message is in progress when its \<open>isStreaming\<close> flag is \<open>true\<close>.\<close>

definition in_progress :: "ChatMessage \<Rightarrow> bool" where
  "in_progress m = (isStreaming m = Some True)"

text \<open>The in-progress messages of a store: those of the list and the one of the slot.\<close>

definition in_progress_messages :: "chat_store \<Rightarrow> ChatMessage list" where
  "in_progress_messages st =
     filter in_progress (messages st) @
     (case streamingMessage st of None \<Rightarrow> [] | Some m \<Rightarrow> filter in_progress [m])"

text \<open>
  The stream listener that ChatInterface.vue registers, \<open>handleStreamMessage(messageId,
  content, isComplete)\<close>, as far as it acts on the store (the refs of the typing
  indicator are local to the component).
\<close>

definition ui_handleStreamMessage ::
  "jsstring \<Rightarrow> jsstring \<Rightarrow> bool \<Rightarrow> jsstring \<Rightarrow> nat \<Rightarrow> chat_store \<Rightarrow> chat_store"
where
  "ui_handleStreamMessage messageId content isComplete fresh_id now st =
     (let hasRefs = checkHasReferences content;
          refs = (if hasRefs then extractReferences content else [])
      in addOrUpdateStreamingMessage content isComplete messageId (Some refs) fresh_id now st)"

section \<open>Transport Adapter and Stream Reassembler (utils/websocket.ts)\<close>

subsection \<open>Data\<close>

text \<open>
  \<open>WebSocketMessage\<close>: a frame after \<open>JSON.parse\<close>. \<open>number\<close> fields hold integers.
\<close>

record WebSocketMessage =
  type :: jsstring
  content :: "jsstring option"
  message :: "jsstring option"
  sender :: "jsstring option"
  timestamp :: jsstring
  has_references :: "bool option"
  references :: "Reference list option"
  is_stream :: "bool option"
  stream_id :: "jsstring option"
  chunk_index :: "int option"
  total_chunks :: "int option"
  is_final :: "bool option"

datatype ConnectionStatus = Connecting | Connected | Disconnected | Reconnecting | Error

text \<open>
  A value of the map \<open>streamMessages\<close>. Its fields \<open>content\<close>, \<open>references\<close> and
  \<open>hasReferences\<close> carry the prefix \<open>sr_\<close>.
\<close>

record StreamRecord =
  sr_content :: jsstring
  chunks :: int
  totalChunks :: int
  sr_references :: "Reference list"
  sr_hasReferences :: bool
  lastUpdate :: nat

text \<open>
  The browser's socket object: its \<open>readyState\<close> and the frames handed to \<open>send\<close>. The
  object that \<open>sendMessage\<close> serialises is kept as a record.
\<close>

datatype ReadyState = CONNECTING | OPEN | CLOSING | CLOSED

record Envelope =
  env_type :: jsstring
  env_content :: jsstring
  env_timestamp :: nat
  enable_multi_agent :: bool

record WebSocket =
  readyState :: ReadyState
  sent :: "Envelope list"

text \<open>
  The callbacks given to \<open>setTimeout\<close> and \<open>setInterval\<close>: the reconnection attempt of
  \<open>scheduleReconnect\<close>, the deletion of a stream record after \<open>stream_end\<close>, and the
  heartbeat of \<open>startHeartbeat\<close>.
\<close>

datatype timer_action = ReconnectAttempt | DeleteStream jsstring | HeartbeatTick

record timer =
  timer_id :: nat
  due :: nat
  action :: timer_action

datatype settle = Resolved | Rejected

datatype js_error = ThrownError

datatype 'a outcome = Returned 'a | Thrown js_error

text \<open>
  The fields of the class. A listener is the identifier of a registered callback; \<open>ws\<close>
  is a handle into the store of sockets, since a socket that the manager has replaced
  or dropped still fires its events. \<open>url\<close> is only passed to the constructor of the
  socket and is left out; of building it, \<open>connect\<close> keeps the exception. The fields
  \<open>maxReconnectAttempts\<close>, \<open>reconnectInterval\<close> and \<open>heartbeatInterval\<close> are never
  assigned and are constants.
\<close>

record WebSocketManager =
  ws :: "nat option"
  token :: jsstring
  reconnectAttempts :: nat
  reconnectTimer :: "nat option"
  heartbeatTimer :: "nat option"
  statusListeners :: "nat list"
  messageListeners :: "nat list"
  errorListeners :: "nat list"
  streamMessages :: "jsstring \<rightharpoonup> StreamRecord"
  streamListeners :: "nat list"

text \<open>
  The manager in its environment: the sockets created so far, the pending timers, the
  clock in milliseconds, whether the next call of the socket's constructor or of its
  \<open>send\<close> throws, and the effects so far: the calls of each listener, the calls of
  \<open>setTimeout\<close> (delay and callback), and the settlements of the promises of \<open>connect\<close>.
\<close>

record world = WebSocketManager +
  sockets :: "nat \<rightharpoonup> WebSocket"
  next_socket :: nat
  timers :: "timer list"
  next_timer :: nat
  clock :: nat
  ctor_throws :: bool
  send_throws :: bool
  status_calls :: "(nat \<times> ConnectionStatus) list"
  message_calls :: "(nat \<times> WebSocketMessage) list"
  error_calls :: "nat list"
  stream_calls :: "(nat \<times> jsstring \<times> jsstring \<times> bool) list"
  setTimeout_calls :: "(nat \<times> timer_action) list"
  settled :: "settle list"

definition maxReconnectAttempts :: nat where
  "maxReconnectAttempts = 5"

definition reconnectInterval :: nat where
  "reconnectInterval = 3000"

definition heartbeatInterval :: nat where
  "heartbeatInterval = 30000"

text \<open>A new manager, no listener registered, at time 0; timer identifiers start at 1.\<close>

definition new_world :: world where
  "new_world =
     \<lparr>ws = None, token = [], reconnectAttempts = 0, reconnectTimer = None,
      heartbeatTimer = None, statusListeners = [], messageListeners = [],
      errorListeners = [], streamMessages = Map.empty, streamListeners = [],
      sockets = Map.empty, next_socket = 0, timers = [], next_timer = 1, clock = 0,
      ctor_throws = False, send_throws = False, status_calls = [], message_calls = [],
      error_calls = [], stream_calls = [], setTimeout_calls = [], settled = []\<rparr>"

subsection \<open>Listeners and timers\<close>

definition onStatusChange :: "nat \<Rightarrow> world \<Rightarrow> world" where
  "onStatusChange callback w = w\<lparr>statusListeners := statusListeners w @ [callback]\<rparr>"

definition onMessage :: "nat \<Rightarrow> world \<Rightarrow> world" where
  "onMessage callback w = w\<lparr>messageListeners := messageListeners w @ [callback]\<rparr>"

definition onError :: "nat \<Rightarrow> world \<Rightarrow> world" where
  "onError callback w = w\<lparr>errorListeners := errorListeners w @ [callback]\<rparr>"

definition onStreamMessage :: "nat \<Rightarrow> world \<Rightarrow> world" where
  "onStreamMessage callback w = w\<lparr>streamListeners := streamListeners w @ [callback]\<rparr>"

definition removeListeners :: "world \<Rightarrow> world" where
  "removeListeners w =
     w\<lparr>statusListeners := [], messageListeners := [], errorListeners := [],
       streamListeners := [], streamMessages := Map.empty\<rparr>"

definition updateStatus :: "ConnectionStatus \<Rightarrow> world \<Rightarrow> world" where
  "updateStatus status w =
     w\<lparr>status_calls := status_calls w @ map (\<lambda>callback. (callback, status)) (statusListeners w)\<rparr>"

text \<open>\<open>this.streamListeners.forEach(callback => callback(stream_id, text, isComplete))\<close>.\<close>

definition notify_stream :: "jsstring \<Rightarrow> jsstring \<Rightarrow> bool \<Rightarrow> world \<Rightarrow> world" where
  "notify_stream sid txt isComplete w =
     w\<lparr>stream_calls := stream_calls w @
          map (\<lambda>callback. (callback, sid, txt, isComplete)) (streamListeners w)\<rparr>"

text \<open>\<open>setTimeout(callback, delay)\<close> returns the identifier of the new timer.\<close>

definition setTimeout :: "timer_action \<Rightarrow> nat \<Rightarrow> world \<Rightarrow> nat \<times> world" where
  "setTimeout act delay w =
     (next_timer w,
      w\<lparr>timers := timers w @ [\<lparr>timer_id = next_timer w, due = clock w + delay, action = act\<rparr>],
        next_timer := Suc (next_timer w),
        setTimeout_calls := setTimeout_calls w @ [(delay, act)]\<rparr>)"

text \<open>\<open>setInterval(callback, delay)\<close>; the timer is armed again each time it fires.\<close>

definition setInterval :: "timer_action \<Rightarrow> nat \<Rightarrow> world \<Rightarrow> nat \<times> world" where
  "setInterval act delay w =
     (next_timer w,
      w\<lparr>timers := timers w @ [\<lparr>timer_id = next_timer w, due = clock w + delay, action = act\<rparr>],
        next_timer := Suc (next_timer w)\<rparr>)"

text \<open>\<open>clearTimeout(id)\<close> and \<open>clearInterval(id)\<close>.\<close>

definition clearTimeout :: "nat \<Rightarrow> world \<Rightarrow> world" where
  "clearTimeout i w = w\<lparr>timers := filter (\<lambda>t. timer_id t \<noteq> i) (timers w)\<rparr>"

definition stopHeartbeat :: "world \<Rightarrow> world" where
  "stopHeartbeat w =
     (case heartbeatTimer w of
        Some i \<Rightarrow> (clearTimeout i w)\<lparr>heartbeatTimer := None\<rparr>
      | None \<Rightarrow> w)"

definition startHeartbeat :: "world \<Rightarrow> world" where
  "startHeartbeat w =
     (case setInterval HeartbeatTick heartbeatInterval (stopHeartbeat w) of
        (i, w1) \<Rightarrow> w1\<lparr>heartbeatTimer := Some i\<rparr>)"

definition stopReconnect :: "world \<Rightarrow> world" where
  "stopReconnect w =
     (let w1 = (case reconnectTimer w of
                  Some i \<Rightarrow> (clearTimeout i w)\<lparr>reconnectTimer := None\<rparr>
                | None \<Rightarrow> w)
      in w1\<lparr>reconnectAttempts := 0\<rparr>)"

definition scheduleReconnect :: "world \<Rightarrow> world" where
  "scheduleReconnect w =
     (let w1 = w\<lparr>reconnectAttempts := Suc (reconnectAttempts w)\<rparr>;
          w2 = updateStatus Reconnecting w1
      in case setTimeout ReconnectAttempt (reconnectInterval * reconnectAttempts w2) w2 of
           (i, w3) \<Rightarrow> w3\<lparr>reconnectTimer := Some i\<rparr>)"

subsection \<open>Sockets\<close>

text \<open>\<open>this.ws.readyState\<close>, \<open>None\<close> when \<open>this.ws\<close> is \<open>null\<close>.\<close>

definition ws_readyState :: "world \<Rightarrow> ReadyState option" where
  "ws_readyState w =
     (case ws w of None \<Rightarrow> None | Some h \<Rightarrow> map_option readyState (sockets w h))"

definition set_readyState :: "nat \<Rightarrow> ReadyState \<Rightarrow> world \<Rightarrow> world" where
  "set_readyState h rs w =
     (case sockets w h of
        None \<Rightarrow> w
      | Some sk \<Rightarrow> w\<lparr>sockets := (sockets w)(h \<mapsto> sk\<lparr>readyState := rs\<rparr>)\<rparr>)"

text \<open>\<open>socket.close(1000, reason)\<close>: a socket not yet closing or closed starts closing.\<close>

definition socket_close :: "nat \<Rightarrow> world \<Rightarrow> world" where
  "socket_close h w =
     (case sockets w h of
        None \<Rightarrow> w
      | Some sk \<Rightarrow>
          (if readyState sk = CLOSING \<or> readyState sk = CLOSED then w
           else set_readyState h CLOSING w))"

text \<open>
  The body of the \<open>try\<close> block of \<open>sendMessage\<close>: it builds the envelope and hands it to
  \<open>socket.send\<close>; whether anything in it throws is the environment's \<open>send_throws\<close>.
\<close>

definition socket_send :: "nat \<Rightarrow> Envelope \<Rightarrow> world \<Rightarrow> world outcome" where
  "socket_send h e w =
     (if send_throws w then Thrown ThrownError
      else case sockets w h of
             None \<Rightarrow> Returned w
           | Some sk \<Rightarrow> Returned (w\<lparr>sockets := (sockets w)(h \<mapsto> sk\<lparr>sent := sent sk @ [e]\<rparr>)\<rparr>))"

subsection \<open>Stream Reassembler\<close>

definition stream_start :: jsstring where
  "stream_start = js ''stream_start''"

definition stream_message :: jsstring where
  "stream_message = js ''stream_message''"

definition stream_end :: jsstring where
  "stream_end = js ''stream_end''"

text \<open>\<open>if (has_references && references) { ... }\<close> on a stream record.\<close>

definition update_references :: "WebSocketMessage \<Rightarrow> StreamRecord \<Rightarrow> StreamRecord" where
  "update_references m r =
     (case references m of
        Some refs \<Rightarrow>
          (if has_references m = Some True
           then r\<lparr>sr_references := refs, sr_hasReferences := True\<rparr> else r)
      | None \<Rightarrow> r)"

definition handleStreamMessage :: "WebSocketMessage \<Rightarrow> world \<Rightarrow> world" where
  "handleStreamMessage m w =
     (case stream_id m of
        None \<Rightarrow> w
      | Some sid \<Rightarrow>
          if sid = [] then w
          else if type m = stream_start then
            (let streamMessage =
                   \<lparr>sr_content = [], chunks = 0, totalChunks = or_num (total_chunks m) 1,
                    sr_references = or_empty (references m),
                    sr_hasReferences = or_false (has_references m), lastUpdate = clock w\<rparr>
             in notify_stream sid [] False
                  (w\<lparr>streamMessages := (streamMessages w)(sid \<mapsto> streamMessage)\<rparr>))
          else if type m = stream_message then
            (let streamMessage =
                   (case streamMessages w sid of
                      None \<Rightarrow>
                        \<lparr>sr_content = or_str (content m) [], chunks = or_num (chunk_index m) 0,
                         totalChunks = or_num (total_chunks m) 1,
                         sr_references = or_empty (references m),
                         sr_hasReferences = or_false (has_references m),
                         lastUpdate = clock w\<rparr>
                    | Some r \<Rightarrow>
                        update_references m
                          (r\<lparr>sr_content := sr_content r @ or_str (content m) [],
                             chunks := or_num (chunk_index m) (chunks r),
                             lastUpdate := clock w\<rparr>))
             in notify_stream sid (or_str (Some (sr_content streamMessage)) []) False
                  (w\<lparr>streamMessages := (streamMessages w)(sid \<mapsto> streamMessage)\<rparr>))
          else if type m = stream_end then
            (case streamMessages w sid of
               Some r \<Rightarrow>
                 (let streamMessage =
                        update_references m
                          (r\<lparr>sr_content := or_str (content m) (sr_content r),
                             chunks := or_num (chunk_index m) (chunks r),
                             lastUpdate := clock w\<rparr>);
                      w1 = w\<lparr>streamMessages := (streamMessages w)(sid \<mapsto> streamMessage)\<rparr>;
                      w2 = notify_stream sid
                             (or_str (Some (sr_content streamMessage)) (or_str (content m) []))
                             True w1
                  in snd (setTimeout (DeleteStream sid) 5000 w2))
             | None \<Rightarrow> notify_stream sid (or_str (content m) []) True w)
          else w)"

text \<open>
  \<open>handleMessage(data)\<close>: \<open>None\<close> is a frame on which \<open>JSON.parse\<close> throws; the \<open>catch\<close>
  drops it.
\<close>

definition is_stream_frame :: "WebSocketMessage \<Rightarrow> bool" where
  "is_stream_frame m =
     ((case stream_id m of None \<Rightarrow> False | Some sid \<Rightarrow> sid \<noteq> []) \<and>
      (or_false (is_stream m) \<or> type m = stream_start \<or> type m = stream_message \<or>
       type m = stream_end))"

definition handleMessage :: "WebSocketMessage option \<Rightarrow> world \<Rightarrow> world" where
  "handleMessage data w =
     (case data of
        None \<Rightarrow> w
      | Some m \<Rightarrow>
          if is_stream_frame m then handleStreamMessage m w
          else w\<lparr>message_calls := message_calls w @
                    map (\<lambda>callback. (callback, m)) (messageListeners w)\<rparr>)"

subsection \<open>Transport Adapter\<close>

text \<open>
  \<open>encodeURIComponent(token)\<close> throws a \<open>URIError\<close> on a string with a lone surrogate:
  a high surrogate (D800 to DBFF) not followed by a low one (DC00 to DFFF), or a low
  surrogate not preceded by a high one.
\<close>

fun well_formed_utf16 :: "jsstring \<Rightarrow> bool" where
  "well_formed_utf16 [] = True"
| "well_formed_utf16 [c] = (\<not> (0xD800 \<le> c \<and> c \<le> 0xDFFF))"
| "well_formed_utf16 (c # d # cs) =
     (if 0xD800 \<le> c \<and> c \<le> 0xDBFF
      then 0xDC00 \<le> d \<and> d \<le> 0xDFFF \<and> well_formed_utf16 cs
      else \<not> (0xDC00 \<le> c \<and> c \<le> 0xDFFF) \<and> well_formed_utf16 (d # cs))"

text \<open>
  \<open>connect(token)\<close>. The promise is rejected when building the URL throws (before any
  status is announced) and when the constructor of the socket throws.
\<close>

definition connect :: "jsstring \<Rightarrow> world \<Rightarrow> world" where
  "connect tok w =
     (if ws_readyState w = Some OPEN then w\<lparr>settled := settled w @ [Resolved]\<rparr>
      else if \<not> well_formed_utf16 tok then w\<lparr>token := tok, settled := settled w @ [Rejected]\<rparr>
      else
        (let w1 = updateStatus Connecting (w\<lparr>token := tok\<rparr>) in
         if ctor_throws w1 then
           (let w2 = updateStatus Error w1 in w2\<lparr>settled := settled w2 @ [Rejected]\<rparr>)
         else
           w1\<lparr>ws := Some (next_socket w1),
              sockets := (sockets w1)(next_socket w1 \<mapsto> \<lparr>readyState = CONNECTING, sent = []\<rparr>),
              next_socket := Suc (next_socket w1)\<rparr>))"

text \<open>The handlers that \<open>connect\<close> attaches to the socket \<open>h\<close> it creates.\<close>

definition ws_onopen :: "nat \<Rightarrow> world \<Rightarrow> world" where
  "ws_onopen h w =
     (let w1 = (set_readyState h OPEN w)\<lparr>reconnectAttempts := 0\<rparr>;
          w2 = startHeartbeat (updateStatus Connected w1)
      in w2\<lparr>settled := settled w2 @ [Resolved]\<rparr>)"

definition ws_onclose :: "nat \<Rightarrow> bool \<Rightarrow> world \<Rightarrow> world" where
  "ws_onclose h wasClean w =
     (let w1 = stopHeartbeat (updateStatus Disconnected (set_readyState h CLOSED w)) in
      if \<not> wasClean \<and> reconnectAttempts w1 < maxReconnectAttempts
      then scheduleReconnect w1 else w1)"

definition ws_onerror :: "nat \<Rightarrow> world \<Rightarrow> world" where
  "ws_onerror h w =
     (let w1 = updateStatus Error w;
          w2 = w1\<lparr>error_calls := error_calls w1 @ errorListeners w1\<rparr>
      in if reconnectAttempts w2 = 0 then w2\<lparr>settled := settled w2 @ [Rejected]\<rparr> else w2)"

definition sendMessage :: "jsstring \<Rightarrow> world \<Rightarrow> bool outcome \<times> world" where
  "sendMessage text_content w =
     (case ws w of
        None \<Rightarrow> (Returned False, w)
      | Some h \<Rightarrow>
          if ws_readyState w \<noteq> Some OPEN then (Returned False, w)
          else
            (case socket_send h
                    \<lparr>env_type = js ''message'', env_content = text_content,
                     env_timestamp = clock w, enable_multi_agent = True\<rparr> w of
               Returned w1 \<Rightarrow> (Returned True, w1)
             | Thrown e \<Rightarrow> (Returned False, w)))"

definition disconnect :: "world \<Rightarrow> world" where
  "disconnect w =
     (let w1 = stopHeartbeat (stopReconnect w);
          w2 = (case ws w1 of
                  Some h \<Rightarrow> (socket_close h w1)\<lparr>ws := None\<rparr>
                | None \<Rightarrow> w1)
      in updateStatus Disconnected w2)"

definition reconnect :: "world \<Rightarrow> world" where
  "reconnect w =
     (let w1 = disconnect (stopReconnect w) in
      if token w1 \<noteq> [] then connect (token w1) w1
      else w1\<lparr>settled := settled w1 @ [Rejected]\<rparr>)"

definition getConnectionStatus :: "world \<Rightarrow> ConnectionStatus" where
  "getConnectionStatus w =
     (case ws_readyState w of
        None \<Rightarrow> Disconnected
      | Some CONNECTING \<Rightarrow> Connecting
      | Some OPEN \<Rightarrow> Connected
      | Some CLOSING \<Rightarrow> Reconnecting
      | Some CLOSED \<Rightarrow> Disconnected)"

definition isConnected :: "world \<Rightarrow> bool" where
  "isConnected w = (ws_readyState w = Some OPEN)"

definition getReconnectAttempts :: "world \<Rightarrow> nat" where
  "getReconnectAttempts w = reconnectAttempts w"

subsection \<open>Time\<close>

text \<open>
  A timer fires: a timeout leaves the pending timers, the interval of the heartbeat is
  armed again (its callback does nothing).
\<close>

definition fire_timer :: "timer \<Rightarrow> world \<Rightarrow> world" where
  "fire_timer t w =
     (case action t of
        ReconnectAttempt \<Rightarrow>
          (let w1 = clearTimeout (timer_id t) w in
           if token w1 \<noteq> [] \<and> reconnectAttempts w1 \<le> maxReconnectAttempts
           then connect (token w1) w1 else w1)
      | DeleteStream sid \<Rightarrow>
          (let w1 = clearTimeout (timer_id t) w in
           w1\<lparr>streamMessages := (streamMessages w1)(sid := None)\<rparr>)
      | HeartbeatTick \<Rightarrow>
          w\<lparr>timers := map (\<lambda>u. if timer_id u = timer_id t
                                then u\<lparr>due := clock w + heartbeatInterval\<rparr> else u)
                          (timers w)\<rparr>)"

text \<open>The timers of \<open>ts\<close> fire in turn, each one if it is still pending.\<close>

fun fire_all :: "timer list \<Rightarrow> world \<Rightarrow> world" where
  "fire_all [] w = w"
| "fire_all (t # ts) w =
     fire_all ts (if timer_id t \<in> set (map timer_id (timers w)) then fire_timer t w else w)"

text \<open>\<open>d\<close> milliseconds pass: the timers that are due fire, the earliest first.\<close>

definition elapse :: "nat \<Rightarrow> world \<Rightarrow> world" where
  "elapse d w =
     (let w1 = w\<lparr>clock := clock w + d\<rparr> in
      fire_all (sort_key due (filter (\<lambda>t. due t \<le> clock w1) (timers w1))) w1)"

subsection \<open>Runs\<close>

text \<open>
  What can happen to a manager: a call of one of its public methods, an event of a
  socket, the passing of time, and the environment deciding whether the constructor
  of the socket or \<open>send\<close> will throw.
\<close>

datatype event =
    Connect jsstring
  | SendMessage jsstring
  | Disconnect
  | Reconnect
  | OnStatusChange nat
  | OnMessage nat
  | OnError nat
  | OnStreamMessage nat
  | RemoveListeners
  | SocketOpen nat
  | SocketClose nat bool
  | SocketError nat
  | SocketMessage nat "WebSocketMessage option"
  | Elapse nat
  | SetCtorThrows bool
  | SetSendThrows bool

fun step :: "event \<Rightarrow> world \<Rightarrow> world" where
  "step (Connect tok) w = connect tok w"
| "step (SendMessage c) w = snd (sendMessage c w)"
| "step Disconnect w = disconnect w"
| "step Reconnect w = reconnect w"
| "step (OnStatusChange cb) w = onStatusChange cb w"
| "step (OnMessage cb) w = onMessage cb w"
| "step (OnError cb) w = onError cb w"
| "step (OnStreamMessage cb) w = onStreamMessage cb w"
| "step RemoveListeners w = removeListeners w"
| "step (SocketOpen h) w = ws_onopen h w"
| "step (SocketClose h wasClean) w = ws_onclose h wasClean w"
| "step (SocketError h) w = ws_onerror h w"
| "step (SocketMessage h data) w = handleMessage data w"
| "step (Elapse d) w = elapse d w"
| "step (SetCtorThrows b) w = w\<lparr>ctor_throws := b\<rparr>"
| "step (SetSendThrows b) w = w\<lparr>send_throws := b\<rparr>"

fun run :: "event list \<Rightarrow> world \<Rightarrow> world" where
  "run [] w = w"
| "run (e # es) w = run es (step e w)"

text \<open>The delays of the reconnection attempts scheduled so far, in order.\<close>

definition reconnect_delays :: "world \<Rightarrow> nat list" where
  "reconnect_delays w = map fst (filter (\<lambda>c. snd c = ReconnectAttempt) (setTimeout_calls w))"

text \<open>The events that set \<open>reconnectAttempts\<close> back to 0.\<close>

fun resets_attempts :: "event \<Rightarrow> bool" where
  "resets_attempts (SocketOpen h) = True"
| "resets_attempts Disconnect = True"
| "resets_attempts Reconnect = True"
| "resets_attempts e = False"

fun unclean_close :: "event \<Rightarrow> bool" where
  "unclean_close (SocketClose h wasClean) = (\<not> wasClean)"
| "unclean_close e = False"

subsection \<open>Observations\<close>

text \<open>The text accumulated for a stream, empty when it has no record.\<close>

definition buffer_text :: "world \<Rightarrow> jsstring \<Rightarrow> jsstring" where
  "buffer_text w sid = (case streamMessages w sid of None \<Rightarrow> [] | Some r \<Rightarrow> sr_content r)"


text \<open>
  The identifier of every pending timer is below the next one to be given out, as it
  is in a new manager and stays after every event.
\<close>

definition timers_fresh :: "world \<Rightarrow> bool" where
  "timers_fresh w = list_all (\<lambda>t. timer_id t < next_timer w) (timers w)"

text \<open>A frame with a type, a stream identifier and maybe a content, and nothing else.\<close>

definition stream_frame :: "jsstring \<Rightarrow> jsstring \<Rightarrow> jsstring option \<Rightarrow> WebSocketMessage" where
  "stream_frame ty sid c =
     \<lparr>type = ty, content = c, message = None, sender = None, timestamp = [],
      has_references = None, references = None, is_stream = None, stream_id = Some sid,
      chunk_index = None, total_chunks = None, is_final = None\<rparr>"

text \<open>A timer that will delete the record of the stream \<open>sid\<close> is pending.\<close>

definition deletion_pending :: "world \<Rightarrow> jsstring \<Rightarrow> bool" where
  "deletion_pending w sid = list_ex (\<lambda>t. action t = DeleteStream sid) (timers w)"



section \<open>Properties of the Reference Extractor\<close>

subsection \<open>Lines and the pattern\<close>

lemma split_acc_no_sep:
  "l \<in> set (split_acc sep cur s) \<Longrightarrow> sep \<notin> set cur \<Longrightarrow> sep \<notin> set l"
proof (induction s arbitrary: cur)
  case Nil
  then show ?case by simp
next
  case (Cons c cs)
  show ?case
  proof (cases "c = sep")
    case True
    with Cons.prems have "l = cur \<or> l \<in> set (split_acc sep [] cs)" by simp
    then show ?thesis
    proof
      assume "l = cur"
      with Cons.prems show ?thesis by simp
    next
      assume "l \<in> set (split_acc sep [] cs)"
      then show ?thesis using Cons.IH [of "[]"] by simp
    qed
  next
    case False
    with Cons.prems have "l \<in> set (split_acc sep (cur @ [c]) cs)" by simp
    moreover have "sep \<notin> set (cur @ [c])" using False Cons.prems by auto
    ultimately show ?thesis by (rule Cons.IH)
  qed
qed

lemma split_no_sep: "l \<in> set (split sep s) \<Longrightarrow> sep \<notin> set l"
  unfolding split_def using split_acc_no_sep [of l sep "[]" s] by simp

lemma first_some_None: "(\<And>x. x \<in> set xs \<Longrightarrow> f x = None) \<Longrightarrow> first_some f xs = None"
  by (induction xs) auto

lemma run_lengths_literal: "c \<notin> set s \<Longrightarrow> run_lengths (Literal c) Once s = []"
  by (cases s) (auto simp: run_lengths_def)

text \<open>A pattern with a literal code unit matches no string without that code unit.\<close>

lemma match_pieces_literal:
  "(Literal c, Once, b) \<in> set ps \<Longrightarrow> c \<notin> set s \<Longrightarrow> match_pieces ps s = None"
proof (induction ps arbitrary: s)
  case Nil
  then show ?case by simp
next
  case (Cons p ps)
  show ?case
  proof (cases "p = (Literal c, Once, b)")
    case True
    with Cons.prems show ?thesis by (simp add: run_lengths_literal)
  next
    case False
    with Cons.prems have mem: "(Literal c, Once, b) \<in> set ps" by simp
    have "match_pieces ps (drop k s) = None" for k
    proof -
      have "c \<notin> set (drop k s)" using Cons.prems(2) by (meson in_set_dropD)
      with mem show ?thesis by (rule Cons.IH)
    qed
    then show ?thesis by (simp add: first_some_None)
  qed
qed

lemma ref_match_needs_NL: "NL \<notin> set line \<Longrightarrow> ref_match line = None"
  unfolding ref_match_def
  by (rule match_pieces_literal [where b = False]) (simp_all add: ref_regex_def)

text \<open>On the two lines of a citation record taken together the pattern does match.\<close>

lemma ref_match_two_lines:
  "ref_match (js ''1. doc.pdf'' @ [NL] @ js ''   preview text'') =
     Some [js ''1'', js ''doc.pdf'', js ''preview text'']"
  by (simp add: NL_def js_def ref_match_def ref_regex_def run_lengths_def)

lemma parse_loop_refs:
  "\<forall>l \<in> set ls. NL \<notin> set l \<Longrightarrow> snd (parse_loop ls inRef tls refs) = refs"
  by (induction ls arbitrary: inRef tls refs) (simp_all add: ref_match_needs_NL)

lemma extract_loop_refs:
  "\<forall>l \<in> set ls. NL \<notin> set l \<Longrightarrow> extract_loop ls inRef refs = refs"
  by (induction ls arbitrary: inRef refs) (simp_all add: ref_match_needs_NL)

text \<open>
  Both functions match the pattern against single lines, which hold no line feed: they
  return no citation, whatever the input.
\<close>

lemma parseReferences_no_citations: "parsed_references (parseReferences txt) = []"
proof -
  have "\<forall>l \<in> set (split NL txt). NL \<notin> set l" by (simp add: split_no_sep)
  then have "snd (parse_loop (split NL txt) False [] []) = []" by (rule parse_loop_refs)
  then show ?thesis by (auto simp: parseReferences_def split: prod.splits)
qed

lemma extractReferences_no_citations: "extractReferences txt = []"
  unfolding extractReferences_def by (rule extract_loop_refs) (simp add: split_no_sep)

lemma split_acc_nonempty: "split_acc sep cur s \<noteq> []"
  by (induction s arbitrary: cur) auto

lemma join_Cons: "ls \<noteq> [] \<Longrightarrow> join sep (l # ls) = l @ sep # join sep ls"
  by (cases ls) auto

lemma join_split_acc: "join sep (split_acc sep cur s) = cur @ s"
  by (induction s arbitrary: cur) (simp_all add: join_Cons split_acc_nonempty)

lemma join_split: "join sep (split sep s) = s"
  by (simp add: split_def join_split_acc)

lemma parse_loop_no_marker:
  "\<forall>l \<in> set ls. \<not> str_includes l marker \<Longrightarrow> parse_loop ls False tls refs = (tls @ ls, refs)"
  by (induction ls arbitrary: tls) simp_all

text \<open>The visible text is made of the lines before the first line with the marker.\<close>

lemma parse_loop_in_section:
  "fst (parse_loop ls True tls refs) = tls"
  by (induction ls arbitrary: refs) (simp_all split: option.splits list.splits)

lemma parse_loop_text:
  "fst (parse_loop ls False tls refs) = tls @ takeWhile (\<lambda>l. \<not> str_includes l marker) ls"
  by (induction ls arbitrary: tls) (simp_all add: parse_loop_in_section)

lemma parseReferences_visible_text:
  "parsed_text (parseReferences s) =
     join NL (takeWhile (\<lambda>l. \<not> str_includes l marker) (split NL s))"
  using parse_loop_text [of "split NL s" "[]" "[]"]
  by (auto simp: parseReferences_def split: prod.splits)

text \<open>A line with the marker is part of the input, so an input without the marker has no such line.\<close>

lemma starts_with_iff: "starts_with s p \<longleftrightarrow> (\<exists>b. s = p @ b)"
  by (induction s p rule: starts_with.induct) auto

lemma str_includes_iff: "str_includes s p \<longleftrightarrow> (\<exists>a b. s = a @ p @ b)"
proof (induction s)
  case Nil
  then show ?case by (cases p) auto
next
  case (Cons c cs)
  show ?case
  proof
    assume "str_includes (c # cs) p"
    then consider "starts_with (c # cs) p" | "str_includes cs p" by auto
    then show "\<exists>a b. c # cs = a @ p @ b"
    proof cases
      case 1
      then obtain b where "c # cs = p @ b" by (auto simp: starts_with_iff)
      then have "c # cs = [] @ p @ b" by simp
      then show ?thesis by blast
    next
      case 2
      with Cons.IH obtain a b where "cs = a @ p @ b" by blast
      then have "c # cs = (c # a) @ p @ b" by simp
      then show ?thesis by blast
    qed
  next
    assume "\<exists>a b. c # cs = a @ p @ b"
    then obtain a b where ab: "c # cs = a @ p @ b" by blast
    show "str_includes (c # cs) p"
    proof (cases a)
      case Nil
      with ab have "starts_with (c # cs) p" by (auto simp: starts_with_iff)
      then show ?thesis by simp
    next
      case (Cons x xs)
      with ab have "cs = xs @ p @ b" by simp
      with Cons.IH have "str_includes cs p" by blast
      then show ?thesis by simp
    qed
  qed
qed

lemma split_acc_part:
  "l \<in> set (split_acc sep cur s) \<Longrightarrow> \<exists>a b. cur @ s = a @ l @ b"
proof (induction s arbitrary: cur)
  case Nil
  then have "cur @ [] = [] @ l @ []" by simp
  then show ?case by blast
next
  case (Cons c cs)
  show ?case
  proof (cases "c = sep")
    case True
    with Cons.prems have "l = cur \<or> l \<in> set (split_acc sep [] cs)" by simp
    then show ?thesis
    proof
      assume "l = cur"
      then have "cur @ c # cs = [] @ l @ (c # cs)" by simp
      then show ?thesis by blast
    next
      assume "l \<in> set (split_acc sep [] cs)"
      with Cons.IH [of "[]"] obtain a b where "cs = a @ l @ b" by auto
      then have "cur @ c # cs = (cur @ c # a) @ l @ b" by simp
      then show ?thesis by blast
    qed
  next
    case False
    with Cons.prems have "l \<in> set (split_acc sep (cur @ [c]) cs)" by simp
    with Cons.IH [of "cur @ [c]"] show ?thesis by simp
  qed
qed

lemma line_includes:
  assumes "l \<in> set (split sep s)" "str_includes l p"
  shows "str_includes s p"
proof -
  from assms(1) obtain a b where s: "s = a @ l @ b"
    unfolding split_def using split_acc_part [of l sep "[]" s] by auto
  from assms(2) obtain c d where "l = c @ p @ d" by (auto simp: str_includes_iff)
  with s have "s = (a @ c) @ p @ (d @ b)" by simp
  then show ?thesis unfolding str_includes_iff by blast
qed

lemma parseReferences_without_marker:
  assumes "\<not> checkHasReferences s"
  shows "parseReferences s = \<lparr>parsed_text = s, parsed_references = []\<rparr>"
proof -
  have "\<forall>l \<in> set (split NL s). \<not> str_includes l marker"
    using assms line_includes [of _ NL s marker] by (auto simp: checkHasReferences_def)
  then show ?thesis by (simp add: parseReferences_def parse_loop_no_marker join_split)
qed

subsection \<open>The claims\<close>

text \<open>
  C1. The claim: on the marker line followed by the citation record \<open>1. doc.pdf\<close> and its
  indented preview line \<open>preview text\<close>, \<open>parseReferences\<close> returns the one citation
  (doc.pdf, preview text), and a visible text without the marker line and the lines
  after it. The code returns that visible text (here the empty one) but no citation:
  the pattern asks for a line feed inside a line.
\<close>

theorem parseReferences_loses_citation:
  "parseReferences (marker @ [NL] @ js ''1. doc.pdf'' @ [NL] @ js ''   preview text'') =
     \<lparr>parsed_text = [], parsed_references = []\<rparr>"
  by (simp add: parseReferences_def split_def marker_def NL_def js_def ref_match_def
      ref_regex_def run_lengths_def)

text \<open>
  C8. On an input none of whose lines holds the marker, \<open>parseReferences\<close> returns the
  whole input, unchanged, as the visible text, and no citation.
\<close>

theorem parseReferences_no_marker:
  "\<forall>line \<in> set (split NL txt). \<not> str_includes line marker \<Longrightarrow>
   parseReferences txt = \<lparr>parsed_text = txt, parsed_references = []\<rparr>"
  by (simp add: parseReferences_def parse_loop_no_marker join_split)

theorem parseReferences_no_marker_witness:
  "split NL (js ''ab'' @ [NL] @ js ''c'') = [js ''ab'', js ''c''] \<and>
   \<not> str_includes (js ''ab'') marker \<and> \<not> str_includes (js ''c'') marker \<and>
   parseReferences (js ''ab'' @ [NL] @ js ''c'') =
     \<lparr>parsed_text = js ''ab'' @ [NL] @ js ''c'', parsed_references = []\<rparr>"
proof -
  have l: "split NL (js ''ab'' @ [NL] @ js ''c'') = [js ''ab'', js ''c'']"
    by (simp add: split_def js_def NL_def)
  have m: "\<not> str_includes (js ''ab'') marker \<and> \<not> str_includes (js ''c'') marker"
    by (simp add: js_def marker_def)
  from l m have h: "\<forall>line \<in> set (split NL (js ''ab'' @ [NL] @ js ''c'')). \<not> str_includes line marker"
    by simp
  show ?thesis using l m parseReferences_no_marker [OF h] by simp
qed

section \<open>Properties of the Message Store\<close>

lemma store_step_inv:
  assumes "\<forall>m \<in> set (messages st). \<not> in_progress m"
    and "\<forall>m. x = AddMessage m \<longrightarrow> \<not> in_progress m"
  shows "\<forall>m \<in> set (messages (apply_store_op x st)). \<not> in_progress m"
  using assms
  by (cases x)
     (auto simp: addMessage_def addOrUpdateStreamingMessage_def clearMessages_def in_progress_def
       Let_def split: option.splits)

lemma run_store_inv:
  "\<forall>m \<in> set (messages st). \<not> in_progress m \<Longrightarrow>
   \<forall>x \<in> set ops. \<forall>m. x = AddMessage m \<longrightarrow> \<not> in_progress m \<Longrightarrow>
   \<forall>m \<in> set (messages (run_store_ops ops st)). \<not> in_progress m"
proof (induction ops arbitrary: st)
  case Nil
  then show ?case by simp
next
  case (Cons x xs)
  have "\<forall>m \<in> set (messages (apply_store_op x st)). \<not> in_progress m"
    using Cons.prems by (intro store_step_inv) simp_all
  moreover have "\<forall>y \<in> set xs. \<forall>m. y = AddMessage m \<longrightarrow> \<not> in_progress m"
    using Cons.prems(2) by simp
  ultimately show ?case using Cons.IH by simp
qed

lemma in_progress_messages_le:
  "\<forall>m \<in> set (messages st). \<not> in_progress m \<Longrightarrow> length (in_progress_messages st) \<le> 1"
  by (simp add: in_progress_messages_def split: option.splits)

text \<open>
  C5. From an empty streaming slot, two calls of \<open>addOrUpdateStreamingMessage\<close> with
  \<open>isComplete = false\<close> and then one with \<open>isComplete = true\<close> append exactly one message
  to the list and leave the slot empty; the appended message is not streaming and its
  text is the content of the last call.
\<close>

theorem streaming_lifecycle:
  assumes "streamingMessage st = None"
  shows "addOrUpdateStreamingMessage c3 True s3 r3 f3 n3
           (addOrUpdateStreamingMessage c2 False s2 r2 f2 n2
              (addOrUpdateStreamingMessage c1 False s1 r1 f1 n1 st)) =
         st\<lparr>messages := messages st @
               [\<lparr>msg_id = f1, msg_type = Ai, msg_content = c3, msg_timestamp = n1,
                 hasReferences = map_option (\<lambda>r. 0 < length r) r3,
                 msg_references = Some (or_empty r3), isStreaming = Some False,
                 streamId = Some s1, feedbackSubmitted = None\<rparr>],
            streamingMessage := None\<rparr>"
  using assms by (simp add: addOrUpdateStreamingMessage_def)

theorem streaming_lifecycle_witness:
  "streamingMessage init_store = None \<and>
   addOrUpdateStreamingMessage (js ''abc'') True (js ''s'') None (js ''k'') 3
     (addOrUpdateStreamingMessage (js ''ab'') False (js ''s'') None (js ''j'') 2
        (addOrUpdateStreamingMessage (js ''a'') False (js ''s'') None (js ''i'') 1 init_store)) =
   \<lparr>messages =
      [\<lparr>msg_id = js ''i'', msg_type = Ai, msg_content = js ''abc'', msg_timestamp = 1,
        hasReferences = None, msg_references = Some [], isStreaming = Some False,
        streamId = Some (js ''s''), feedbackSubmitted = None\<rparr>],
    isLoading = False, streamingMessage = None\<rparr>"
proof -
  have h: "streamingMessage init_store = None" by (simp add: init_store_def)
  show ?thesis
    using h streaming_lifecycle [OF h, of "js ''abc''" "js ''s''" None "js ''k''" 3
        "js ''ab''" "js ''s''" None "js ''j''" 2 "js ''a''" "js ''s''" None "js ''i''" 1]
    by (simp add: init_store_def)
qed

text \<open>
  C6. In every state that the operations of the store reach from the empty store,
  \<open>addMessage\<close> being given only messages that are not streaming, at most one message
  is in progress, counting the list and the streaming slot, and no message of the
  list is in progress.
\<close>

theorem single_in_progress:
  assumes "\<forall>x \<in> set ops. \<forall>m. x = AddMessage m \<longrightarrow> \<not> in_progress m"
  shows "length (in_progress_messages (run_store_ops ops init_store)) \<le> 1 \<and>
         (\<forall>m \<in> set (messages (run_store_ops ops init_store)). \<not> in_progress m)"
proof -
  have "\<forall>m \<in> set (messages init_store). \<not> in_progress m" by (simp add: init_store_def)
  then have inv: "\<forall>m \<in> set (messages (run_store_ops ops init_store)). \<not> in_progress m"
    using assms by (rule run_store_inv)
  from inv have "length (in_progress_messages (run_store_ops ops init_store)) \<le> 1"
    by (rule in_progress_messages_le)
  with inv show ?thesis by simp
qed

theorem single_in_progress_witness:
  "\<not> in_progress \<lparr>msg_id = js ''u'', msg_type = User, msg_content = js ''q'',
        msg_timestamp = 1, hasReferences = None, msg_references = None,
        isStreaming = None, streamId = None, feedbackSubmitted = None\<rparr> \<and>
   length (in_progress_messages (run_store_ops
     [AddOrUpdateStreamingMessage (js ''a'') False (js ''s'') None (js ''i'') 0,
      AddMessage \<lparr>msg_id = js ''u'', msg_type = User, msg_content = js ''q'',
        msg_timestamp = 1, hasReferences = None, msg_references = None,
        isStreaming = None, streamId = None, feedbackSubmitted = None\<rparr>,
      AddOrUpdateStreamingMessage (js ''ab'') True (js ''s'') None (js ''j'') 2,
      AddOrUpdateStreamingMessage (js ''c'') False (js ''t'') None (js ''k'') 3]
     init_store)) \<le> 1 \<and>
   filter in_progress (messages (run_store_ops
     [AddOrUpdateStreamingMessage (js ''a'') False (js ''s'') None (js ''i'') 0,
      AddMessage \<lparr>msg_id = js ''u'', msg_type = User, msg_content = js ''q'',
        msg_timestamp = 1, hasReferences = None, msg_references = None,
        isStreaming = None, streamId = None, feedbackSubmitted = None\<rparr>,
      AddOrUpdateStreamingMessage (js ''ab'') True (js ''s'') None (js ''j'') 2,
      AddOrUpdateStreamingMessage (js ''c'') False (js ''t'') None (js ''k'') 3]
     init_store)) = []"
proof -
  let ?u = "\<lparr>msg_id = js ''u'', msg_type = User, msg_content = js ''q'',
        msg_timestamp = 1, hasReferences = None, msg_references = None,
        isStreaming = None, streamId = None, feedbackSubmitted = None\<rparr>"
  let ?ops = "[AddOrUpdateStreamingMessage (js ''a'') False (js ''s'') None (js ''i'') 0,
      AddMessage ?u,
      AddOrUpdateStreamingMessage (js ''ab'') True (js ''s'') None (js ''j'') 2,
      AddOrUpdateStreamingMessage (js ''c'') False (js ''t'') None (js ''k'') 3]"
  have u: "\<not> in_progress ?u" by (simp add: in_progress_def)
  then have h: "\<forall>x \<in> set ?ops. \<forall>m. x = AddMessage m \<longrightarrow> \<not> in_progress m"
    by simp
  from single_in_progress [OF h] u show ?thesis
    by (simp only: filter_empty_conv) blast
qed

text \<open>
  C9. With the streaming slot empty, \<open>addOrUpdateStreamingMessage\<close> with
  \<open>isComplete = true\<close> changes nothing: no message is appended, the slot stays empty, the
  content and the citations are dropped. So the listener of ChatInterface.vue loses
  the text of a completion that arrives while no message is in progress.
\<close>

theorem complete_on_empty_slot:
  assumes "streamingMessage st = None"
  shows "addOrUpdateStreamingMessage txt True sid refs fresh_id now st = st \<and>
         ui_handleStreamMessage sid txt True fresh_id now st = st"
  using assms by (simp add: addOrUpdateStreamingMessage_def ui_handleStreamMessage_def)

theorem complete_on_empty_slot_witness:
  "streamingMessage init_store = None \<and>
   addOrUpdateStreamingMessage (js ''final'') True (js ''s'') (Some []) (js ''i'') 7 init_store =
     init_store \<and>
   ui_handleStreamMessage (js ''s'') (js ''final'') True (js ''i'') 7 init_store = init_store"
proof -
  have h: "streamingMessage init_store = None" by (simp add: init_store_def)
  show ?thesis
    using h complete_on_empty_slot [OF h, of "js ''final''" "js ''s''" "Some []" "js ''i''" 7]
    by simp
qed

section \<open>Properties of the Stream Reassembler\<close>

lemma frame_types_distinct:
  "stream_start \<noteq> stream_message" "stream_start \<noteq> stream_end" "stream_message \<noteq> stream_end"
  "stream_message \<noteq> stream_start" "stream_end \<noteq> stream_start" "stream_end \<noteq> stream_message"
  by (simp_all add: stream_start_def stream_message_def stream_end_def js_def)

lemma sr_content_update_references [simp]:
  "sr_content (update_references m r) = sr_content r"
  by (simp add: update_references_def split: option.splits)



lemma end_frame_step:
  assumes "sid \<noteq> []" "type e = stream_end" "stream_id e = Some sid"
  shows "stream_calls (handleMessage (Some e) w) =
           stream_calls w @
           map (\<lambda>cb. (cb, sid, or_str (content e) (buffer_text w sid), True)) (streamListeners w)"
proof (cases "streamMessages w sid")
  case None
  with assms show ?thesis
    by (simp add: handleMessage_def is_stream_frame_def handleStreamMessage_def
        frame_types_distinct buffer_text_def notify_stream_def)
next
  case (Some r)
  have fin: "or_str (Some (or_str (content e) (sr_content r))) (or_str (content e) []) =
             or_str (content e) (sr_content r)"
    by (cases "content e") auto
  from Some assms show ?thesis
    by (simp add: handleMessage_def is_stream_frame_def handleStreamMessage_def
        frame_types_distinct buffer_text_def notify_stream_def setTimeout_def Let_def fin
        update_references_def del: or_str.simps split: option.splits)
qed

lemma handleMessage_listeners [simp]:
  "streamListeners (handleMessage data w) = streamListeners w"
  by (simp add: handleMessage_def handleStreamMessage_def notify_stream_def setTimeout_def
      Let_def split: option.splits)

subsection \<open>Timers\<close>

lemma connect_streams [simp]:
  "streamMessages (connect tok w) = streamMessages w"
  "streamListeners (connect tok w) = streamListeners w"
  "timers (connect tok w) = timers w"
  "stream_calls (connect tok w) = stream_calls w"
  by (simp_all add: connect_def updateStatus_def Let_def)

lemma fire_timer_listeners [simp]:
  "streamListeners (fire_timer t w) = streamListeners w"
  "stream_calls (fire_timer t w) = stream_calls w"
  by (simp_all add: fire_timer_def clearTimeout_def Let_def split: timer_action.splits)

lemma fire_all_listeners [simp]:
  "streamListeners (fire_all ts w) = streamListeners w"
  "stream_calls (fire_all ts w) = stream_calls w"
  by (induction ts arbitrary: w) simp_all

lemma elapse_listeners [simp]:
  "streamListeners (elapse d w) = streamListeners w"
  "stream_calls (elapse d w) = stream_calls w"
  by (simp_all add: elapse_def Let_def)

lemma fire_timer_keeps_None:
  "streamMessages w sid = None \<Longrightarrow> streamMessages (fire_timer t w) sid = None"
  by (simp add: fire_timer_def clearTimeout_def Let_def split: timer_action.splits)

lemma fire_all_keeps_None:
  "streamMessages w sid = None \<Longrightarrow> streamMessages (fire_all ts w) sid = None"
  by (induction ts arbitrary: w) (simp_all add: fire_timer_keeps_None)

lemma fire_timer_deletes:
  "action t = DeleteStream sid \<Longrightarrow> streamMessages (fire_timer t w) sid = None"
  by (simp add: fire_timer_def clearTimeout_def Let_def)

lemma fire_timer_keeps_pending:
  assumes "i \<noteq> timer_id t" "i \<in> set (map timer_id (timers w))"
  shows "i \<in> set (map timer_id (timers (fire_timer t w)))"
proof (cases "action t")
  case ReconnectAttempt
  with assms show ?thesis by (auto simp: fire_timer_def clearTimeout_def Let_def)
next
  case (DeleteStream s)
  with assms show ?thesis by (auto simp: fire_timer_def clearTimeout_def Let_def)
next
  case HeartbeatTick
  have "map timer_id (map (\<lambda>u. if timer_id u = timer_id t
           then u\<lparr>due := clock w + heartbeatInterval\<rparr> else u) (timers w)) = map timer_id (timers w)"
    by (induction "timers w") auto
  with HeartbeatTick assms show ?thesis by (simp add: fire_timer_def)
qed

lemma fire_all_deletes:
  assumes "t0 \<in> set ts" "action t0 = DeleteStream sid"
    and "\<forall>t \<in> set ts. t \<noteq> t0 \<longrightarrow> timer_id t \<noteq> timer_id t0"
    and "timer_id t0 \<in> set (map timer_id (timers w))"
  shows "streamMessages (fire_all ts w) sid = None"
  using assms(1,3,4)
proof (induction ts arbitrary: w)
  case Nil
  then show ?case by simp
next
  case (Cons t ts)
  show ?case
  proof (cases "t = t0")
    case True
    with Cons.prems(3) have "fire_all (t # ts) w = fire_all ts (fire_timer t0 w)" by simp
    then show ?thesis
      using fire_all_keeps_None [OF fire_timer_deletes [OF assms(2)]] by simp
  next
    case False
    with Cons.prems have mem: "t0 \<in> set ts" and ne: "timer_id t0 \<noteq> timer_id t"
      and rest: "\<forall>u \<in> set ts. u \<noteq> t0 \<longrightarrow> timer_id u \<noteq> timer_id t0"
      by auto
    let ?w = "if timer_id t \<in> set (map timer_id (timers w)) then fire_timer t w else w"
    have "timer_id t0 \<in> set (map timer_id (timers ?w))"
      using fire_timer_keeps_pending [OF ne Cons.prems(3)] Cons.prems(3) by simp
    from Cons.IH [OF mem rest this] show ?thesis by simp
  qed
qed

lemma end_frame_no_buffer:
  assumes "sid \<noteq> []" "type e = stream_end" "stream_id e = Some sid" "streamMessages w sid = None"
  shows "handleMessage (Some e) w = notify_stream sid (or_str (content e) []) True w"
  using assms
  by (simp add: handleMessage_def is_stream_frame_def handleStreamMessage_def frame_types_distinct)

lemma end_frame_buffer:
  assumes "sid \<noteq> []" "type e = stream_end" "stream_id e = Some sid" "streamMessages w sid = Some r"
  shows "timers (handleMessage (Some e) w) =
           timers w @ [\<lparr>timer_id = next_timer w, due = clock w + 5000, action = DeleteStream sid\<rparr>]"
    and "clock (handleMessage (Some e) w) = clock w"
  using assms
  by (simp_all add: handleMessage_def is_stream_frame_def handleStreamMessage_def
      frame_types_distinct notify_stream_def setTimeout_def Let_def)

lemma grace_window_deletes:
  assumes "sid \<noteq> []" "timers_fresh w" "type e = stream_end" "stream_id e = Some sid" "5000 \<le> d"
  shows "streamMessages (elapse d (handleMessage (Some e) w)) sid = None"
proof (cases "streamMessages w sid")
  case None
  from end_frame_no_buffer [OF assms(1,3,4) None]
  have "streamMessages (handleMessage (Some e) w) sid = None"
    using None by (simp add: notify_stream_def)
  then show ?thesis by (simp add: elapse_def Let_def fire_all_keeps_None)
next
  case (Some r)
  let ?w1 = "handleMessage (Some e) w"
  let ?t0 = "\<lparr>timer_id = next_timer w, due = clock w + 5000, action = DeleteStream sid\<rparr>"
  let ?w2 = "?w1\<lparr>clock := clock ?w1 + d\<rparr>"
  let ?ts = "sort_key due (filter (\<lambda>t. due t \<le> clock ?w2) (timers ?w2))"
  note tm = end_frame_buffer [OF assms(1,3,4) Some]
  have mem: "?t0 \<in> set ?ts" using tm assms(5) by simp
  have act: "action ?t0 = DeleteStream sid" by simp
  have others: "\<forall>t \<in> set ?ts. t \<noteq> ?t0 \<longrightarrow> timer_id t \<noteq> timer_id ?t0"
    using tm assms(2) by (auto simp: timers_fresh_def list_all_iff)
  have pending: "timer_id ?t0 \<in> set (map timer_id (timers ?w2))" using tm by simp
  have "streamMessages (fire_all ?ts ?w2) sid = None"
    by (rule fire_all_deletes [OF mem act others pending])
  then show ?thesis by (simp add: elapse_def Let_def)
qed


lemma timers_fresh_new: "timers_fresh new_world"
  by (simp add: timers_fresh_def new_world_def)

lemma timers_fresh_same:
  "timers w' = timers w \<Longrightarrow> next_timer w' = next_timer w \<Longrightarrow> timers_fresh w \<Longrightarrow> timers_fresh w'"
  by (simp add: timers_fresh_def)

lemma timers_fresh_clearTimeout: "timers_fresh w \<Longrightarrow> timers_fresh (clearTimeout i w)"
  by (simp add: timers_fresh_def clearTimeout_def list_all_iff)

lemma timers_fresh_setTimeout: "timers_fresh w \<Longrightarrow> timers_fresh (snd (setTimeout act delay w))"
  by (auto simp: timers_fresh_def setTimeout_def list_all_iff)

lemma timers_fresh_setInterval: "timers_fresh w \<Longrightarrow> timers_fresh (snd (setInterval act delay w))"
  by (auto simp: timers_fresh_def setInterval_def list_all_iff)

lemma timers_fresh_updateStatus: "timers_fresh w \<Longrightarrow> timers_fresh (updateStatus s w)"
  by (simp add: timers_fresh_def updateStatus_def)

lemma timers_fresh_stopHeartbeat: "timers_fresh w \<Longrightarrow> timers_fresh (stopHeartbeat w)"
  by (auto simp: timers_fresh_def stopHeartbeat_def clearTimeout_def list_all_iff split: option.splits)

lemma timers_fresh_startHeartbeat: "timers_fresh w \<Longrightarrow> timers_fresh (startHeartbeat w)"
  using timers_fresh_setInterval [OF timers_fresh_stopHeartbeat, of w HeartbeatTick heartbeatInterval]
  by (auto simp: startHeartbeat_def timers_fresh_def split: prod.splits)

lemma timers_fresh_stopReconnect: "timers_fresh w \<Longrightarrow> timers_fresh (stopReconnect w)"
  by (auto simp: timers_fresh_def stopReconnect_def clearTimeout_def list_all_iff Let_def
      split: option.splits)

lemma timers_fresh_scheduleReconnect: "timers_fresh w \<Longrightarrow> timers_fresh (scheduleReconnect w)"
  by (auto simp: timers_fresh_def scheduleReconnect_def setTimeout_def updateStatus_def
      list_all_iff Let_def)

lemma timers_fresh_connect: "timers_fresh w \<Longrightarrow> timers_fresh (connect tok w)"
  by (simp add: timers_fresh_def connect_def updateStatus_def Let_def)

lemma timers_fresh_set_readyState: "timers_fresh w \<Longrightarrow> timers_fresh (set_readyState h rs w)"
  by (simp add: timers_fresh_def set_readyState_def split: option.splits)

lemma timers_fresh_disconnect: "timers_fresh w \<Longrightarrow> timers_fresh (disconnect w)"
proof -
  assume "timers_fresh w"
  then have "timers_fresh (stopHeartbeat (stopReconnect w))"
    by (intro timers_fresh_stopHeartbeat timers_fresh_stopReconnect)
  then show ?thesis
    by (simp add: disconnect_def Let_def timers_fresh_def updateStatus_def socket_close_def
        set_readyState_def split: option.splits)
qed

lemma timers_fresh_reconnect: "timers_fresh w \<Longrightarrow> timers_fresh (reconnect w)"
proof -
  assume "timers_fresh w"
  then have d: "timers_fresh (disconnect (stopReconnect w))"
    by (intro timers_fresh_disconnect timers_fresh_stopReconnect)
  show ?thesis
    unfolding reconnect_def Let_def
    using d timers_fresh_connect [OF d] by (simp add: timers_fresh_def)
qed

lemma timers_fresh_onopen: "timers_fresh w \<Longrightarrow> timers_fresh (ws_onopen h w)"
proof -
  assume "timers_fresh w"
  then have "timers_fresh ((set_readyState h OPEN w)\<lparr>reconnectAttempts := 0\<rparr>)"
    by (simp add: timers_fresh_def set_readyState_def split: option.splits)
  then have "timers_fresh (startHeartbeat (updateStatus Connected
                ((set_readyState h OPEN w)\<lparr>reconnectAttempts := 0\<rparr>)))"
    by (intro timers_fresh_startHeartbeat timers_fresh_updateStatus)
  then show ?thesis by (simp add: ws_onopen_def Let_def timers_fresh_def)
qed

lemma timers_fresh_onclose: "timers_fresh w \<Longrightarrow> timers_fresh (ws_onclose h wasClean w)"
proof -
  assume "timers_fresh w"
  then have "timers_fresh (stopHeartbeat (updateStatus Disconnected (set_readyState h CLOSED w)))"
    by (intro timers_fresh_stopHeartbeat timers_fresh_updateStatus timers_fresh_set_readyState)
  then show ?thesis by (simp add: ws_onclose_def Let_def timers_fresh_scheduleReconnect)
qed

lemma timers_fresh_onerror: "timers_fresh w \<Longrightarrow> timers_fresh (ws_onerror h w)"
  by (simp add: timers_fresh_def ws_onerror_def updateStatus_def Let_def)

lemma timers_fresh_handleMessage: "timers_fresh w \<Longrightarrow> timers_fresh (handleMessage data w)"
  by (auto simp: timers_fresh_def handleMessage_def handleStreamMessage_def notify_stream_def
      setTimeout_def list_all_iff Let_def split: option.splits)

lemma timers_fresh_sendMessage: "timers_fresh w \<Longrightarrow> timers_fresh (snd (sendMessage c w))"
  by (auto simp: timers_fresh_def sendMessage_def socket_send_def
      split: option.splits outcome.splits)

lemma timers_fresh_fire_timer: "timers_fresh w \<Longrightarrow> timers_fresh (fire_timer t w)"
proof (cases "action t")
  case ReconnectAttempt
  assume "timers_fresh w"
  then have c: "timers_fresh (clearTimeout (timer_id t) w)" by (rule timers_fresh_clearTimeout)
  with ReconnectAttempt show ?thesis by (simp add: fire_timer_def Let_def timers_fresh_connect)
next
  case (DeleteStream s)
  assume "timers_fresh w"
  then have c: "timers_fresh (clearTimeout (timer_id t) w)" by (rule timers_fresh_clearTimeout)
  with DeleteStream show ?thesis by (simp add: fire_timer_def Let_def timers_fresh_def)
next
  case HeartbeatTick
  assume "timers_fresh w"
  with HeartbeatTick show ?thesis
    by (auto simp: fire_timer_def timers_fresh_def list_all_iff)
qed

lemma timers_fresh_fire_all: "timers_fresh w \<Longrightarrow> timers_fresh (fire_all ts w)"
  by (induction ts arbitrary: w) (simp_all add: timers_fresh_fire_timer)

lemma timers_fresh_elapse: "timers_fresh w \<Longrightarrow> timers_fresh (elapse d w)"
proof -
  assume "timers_fresh w"
  then have "timers_fresh (w\<lparr>clock := clock w + d\<rparr>)" by (simp add: timers_fresh_def)
  then show ?thesis unfolding elapse_def Let_def by (rule timers_fresh_fire_all)
qed

lemma timers_fresh_step: "timers_fresh w \<Longrightarrow> timers_fresh (step e w)"
proof (cases e)
  case (OnStatusChange cb)
  assume "timers_fresh w"
  with OnStatusChange show ?thesis by (simp add: timers_fresh_def onStatusChange_def)
next
  case (OnMessage cb)
  assume "timers_fresh w"
  with OnMessage show ?thesis by (simp add: timers_fresh_def onMessage_def)
next
  case (OnError cb)
  assume "timers_fresh w"
  with OnError show ?thesis by (simp add: timers_fresh_def onError_def)
next
  case (OnStreamMessage cb)
  assume "timers_fresh w"
  with OnStreamMessage show ?thesis by (simp add: timers_fresh_def onStreamMessage_def)
next
  case RemoveListeners
  assume "timers_fresh w"
  with RemoveListeners show ?thesis by (simp add: timers_fresh_def removeListeners_def)
next
  case (SetCtorThrows b)
  assume "timers_fresh w"
  with SetCtorThrows show ?thesis by (simp add: timers_fresh_def)
next
  case (SetSendThrows b)
  assume "timers_fresh w"
  with SetSendThrows show ?thesis by (simp add: timers_fresh_def)
qed (simp_all add: timers_fresh_connect timers_fresh_sendMessage timers_fresh_disconnect
      timers_fresh_reconnect timers_fresh_onopen timers_fresh_onclose timers_fresh_onerror
      timers_fresh_handleMessage timers_fresh_elapse)

lemma timers_fresh_run: "timers_fresh w \<Longrightarrow> timers_fresh (run es w)"
  by (induction es arbitrary: w) (simp_all add: timers_fresh_step)


subsection \<open>Events between the frames of a stream\<close>


lemma pending_same:
  "timers w' = timers w \<Longrightarrow> deletion_pending w' sid = deletion_pending w sid"
  by (simp add: deletion_pending_def)

lemma stopHeartbeat_streams [simp]: "streamMessages (stopHeartbeat w) = streamMessages w"
  by (simp add: stopHeartbeat_def clearTimeout_def split: option.splits)

lemma startHeartbeat_streams [simp]: "streamMessages (startHeartbeat w) = streamMessages w"
  by (simp add: startHeartbeat_def setInterval_def split: prod.splits)

lemma stopReconnect_streams [simp]: "streamMessages (stopReconnect w) = streamMessages w"
  by (simp add: stopReconnect_def clearTimeout_def Let_def split: option.splits)

lemma disconnect_streams [simp]: "streamMessages (disconnect w) = streamMessages w"
  by (simp add: disconnect_def updateStatus_def socket_close_def set_readyState_def Let_def
      split: option.splits)

lemma reconnect_streams [simp]: "streamMessages (reconnect w) = streamMessages w"
  by (simp add: reconnect_def Let_def)

lemma sendMessage_streams [simp]: "streamMessages (snd (sendMessage c w)) = streamMessages w"
  by (simp add: sendMessage_def socket_send_def split: option.splits outcome.splits)

lemma ws_onopen_streams [simp]: "streamMessages (ws_onopen h w) = streamMessages w"
  by (simp add: ws_onopen_def updateStatus_def set_readyState_def Let_def split: option.splits)

lemma ws_onclose_streams [simp]: "streamMessages (ws_onclose h c w) = streamMessages w"
  by (simp add: ws_onclose_def scheduleReconnect_def setTimeout_def updateStatus_def
      set_readyState_def Let_def split: option.splits)

lemma ws_onerror_streams [simp]: "streamMessages (ws_onerror h w) = streamMessages w"
  by (simp add: ws_onerror_def updateStatus_def Let_def)




























subsection \<open>The claims about streams\<close>





text \<open>
  C3, as the code has it. Once the 5 seconds after a \<open>stream_end\<close> frame have passed
  and the timers that were due have fired, the stream has no record any more. A late
  second \<open>stream_end\<close> frame for the same identifier is not dropped: every stream
  listener is notified again, with \<open>isComplete = true\<close> and the content of this frame
  (the empty string if it has none), and the stream still has no record.
\<close>

theorem late_stream_end_renotifies:
  assumes "sid \<noteq> []" and "timers_fresh w"
    and "type e = stream_end" and "stream_id e = Some sid" and "5000 \<le> d"
    and "type e' = stream_end" and "stream_id e' = Some sid"
  shows "streamMessages (run [SocketMessage h (Some e), Elapse d] w) sid = None \<and>
         stream_calls (run [SocketMessage h (Some e), Elapse d, SocketMessage h (Some e')] w) =
           stream_calls (run [SocketMessage h (Some e), Elapse d] w) @
           map (\<lambda>cb. (cb, sid, or_str (content e') [], True)) (streamListeners w) \<and>
         streamMessages (run [SocketMessage h (Some e), Elapse d, SocketMessage h (Some e')] w) sid
           = None"
proof -
  let ?w2 = "elapse d (handleMessage (Some e) w)"
  have gone: "streamMessages ?w2 sid = None"
    by (rule grace_window_deletes [OF assms(1-5)])
  then have empty: "buffer_text ?w2 sid = []" by (simp add: buffer_text_def)
  have calls: "stream_calls (handleMessage (Some e') ?w2) =
      stream_calls ?w2 @ map (\<lambda>cb. (cb, sid, or_str (content e') [], True)) (streamListeners w)"
    using end_frame_step [OF assms(1,6,7), of ?w2] empty by simp
  have still: "streamMessages (handleMessage (Some e') ?w2) sid = None"
    using end_frame_no_buffer [OF assms(1,6,7) gone] gone by (simp add: notify_stream_def)
  from gone calls still show ?thesis by simp
qed

theorem late_stream_end_renotifies_witness:
  "streamMessages
     (run [SocketMessage 0 (Some (stream_frame stream_end (js ''s'') (Some (js ''x'')))),
           Elapse 5000]
        (run [SocketMessage 0 (Some (stream_frame stream_start (js ''s'') None))]
           (onStreamMessage 7 new_world))) (js ''s'') = None \<and>
   stream_calls
     (run [SocketMessage 0 (Some (stream_frame stream_end (js ''s'') (Some (js ''x'')))),
           Elapse 5000,
           SocketMessage 0 (Some (stream_frame stream_end (js ''s'') (Some (js ''x''))))]
        (run [SocketMessage 0 (Some (stream_frame stream_start (js ''s'') None))]
           (onStreamMessage 7 new_world))) =
   stream_calls
     (run [SocketMessage 0 (Some (stream_frame stream_end (js ''s'') (Some (js ''x'')))),
           Elapse 5000]
        (run [SocketMessage 0 (Some (stream_frame stream_start (js ''s'') None))]
           (onStreamMessage 7 new_world))) @
   [(7, js ''s'', js ''x'', True)]"
proof -
  let ?e = "stream_frame stream_end (js ''s'') (Some (js ''x''))"
  let ?w = "run [SocketMessage 0 (Some (stream_frame stream_start (js ''s'') None))]
              (onStreamMessage 7 new_world)"
  have 1: "js ''s'' \<noteq> []" by (simp add: js_def)
  have "timers_fresh (onStreamMessage 7 new_world)"
    by (simp add: timers_fresh_def onStreamMessage_def new_world_def)
  then have 2: "timers_fresh ?w" by (rule timers_fresh_run)
  have 3: "type ?e = stream_end" and 4: "stream_id ?e = Some (js ''s'')"
    by (simp_all add: stream_frame_def)
  have 5: "(5000::nat) \<le> 5000" by simp
  have 6: "streamListeners ?w = [7]" by (simp add: onStreamMessage_def new_world_def)
  have 7: "or_str (content ?e) [] = js ''x''" by (simp add: stream_frame_def js_def)
  show ?thesis
    using late_stream_end_renotifies [OF 1 2 3 4 5 3 4, of 0] unfolding 6 7 by simp
qed

text \<open>
  C3 as stated fails: with one listener, after a start, a chunk, an end and 5 seconds,
  the record is gone and the listener has been called three times; the duplicate end
  frame calls it a fourth time.
\<close>

theorem late_stream_end_not_dropped:
  "streamMessages (run [SocketMessage 0 (Some (stream_frame stream_start (js ''s'') None)),
                        SocketMessage 0 (Some (stream_frame stream_message (js ''s'') (Some (js ''a'')))),
                        SocketMessage 0 (Some (stream_frame stream_end (js ''s'') None)),
                        Elapse 5000] (onStreamMessage 7 new_world)) (js ''s'') = None \<and>
   stream_calls (run [SocketMessage 0 (Some (stream_frame stream_start (js ''s'') None)),
                      SocketMessage 0 (Some (stream_frame stream_message (js ''s'') (Some (js ''a'')))),
                      SocketMessage 0 (Some (stream_frame stream_end (js ''s'') None)),
                      Elapse 5000] (onStreamMessage 7 new_world)) =
     [(7, js ''s'', [], False), (7, js ''s'', js ''a'', False), (7, js ''s'', js ''a'', True)] \<and>
   stream_calls (run [SocketMessage 0 (Some (stream_frame stream_start (js ''s'') None)),
                      SocketMessage 0 (Some (stream_frame stream_message (js ''s'') (Some (js ''a'')))),
                      SocketMessage 0 (Some (stream_frame stream_end (js ''s'') None)),
                      Elapse 5000,
                      SocketMessage 0 (Some (stream_frame stream_end (js ''s'') None))]
                   (onStreamMessage 7 new_world)) =
     [(7, js ''s'', [], False), (7, js ''s'', js ''a'', False), (7, js ''s'', js ''a'', True),
      (7, js ''s'', [], True)]"
  by (simp add: handleMessage_def is_stream_frame_def handleStreamMessage_def
        frame_types_distinct notify_stream_def setTimeout_def Let_def stream_frame_def
        onStreamMessage_def new_world_def update_references_def js_def elapse_def
        fire_timer_def clearTimeout_def)

text \<open>
  C10. A frame without a stream identifier (none, or the empty string), whatever its
  type, \<open>stream_start\<close>, \<open>stream_message\<close> and \<open>stream_end\<close> included, is given to each
  message listener and changes nothing else: no stream record, no stream listener
  call, no timer.
\<close>

theorem frame_without_stream_id:
  assumes "stream_id m = None \<or> stream_id m = Some []"
  shows "handleMessage (Some m) w =
           w\<lparr>message_calls := message_calls w @ map (\<lambda>cb. (cb, m)) (messageListeners w)\<rparr>"
  using assms by (auto simp: handleMessage_def is_stream_frame_def)

theorem frame_without_stream_id_witness:
  "stream_id ((stream_frame stream_end [] (Some (js ''x'')))\<lparr>stream_id := None\<rparr>) = None \<and>
   handleMessage (Some ((stream_frame stream_end [] (Some (js ''x'')))\<lparr>stream_id := None\<rparr>))
       (onStreamMessage 7 (onMessage 3 new_world)) =
     (onStreamMessage 7 (onMessage 3 new_world))
       \<lparr>message_calls := [(3, (stream_frame stream_end [] (Some (js ''x'')))\<lparr>stream_id := None\<rparr>)]\<rparr>"
proof -
  let ?m = "(stream_frame stream_end [] (Some (js ''x'')))\<lparr>stream_id := None\<rparr>"
  let ?w = "onStreamMessage 7 (onMessage 3 new_world)"
  have 1: "stream_id ?m = None" by simp
  then have h: "stream_id ?m = None \<or> stream_id ?m = Some []" by simp
  have 2: "messageListeners ?w = [3]" "message_calls ?w = []"
    by (simp_all add: onStreamMessage_def onMessage_def new_world_def)
  show ?thesis using 1 frame_without_stream_id [OF h, of ?w] unfolding 2 by simp
qed

section \<open>Properties of the Transport Adapter\<close>

lemma connect_attempts [simp]:
  "reconnectAttempts (connect tok w) = reconnectAttempts w"
  "setTimeout_calls (connect tok w) = setTimeout_calls w"
  by (simp_all add: connect_def updateStatus_def Let_def)

lemma stopHeartbeat_attempts [simp]:
  "reconnectAttempts (stopHeartbeat w) = reconnectAttempts w"
  "setTimeout_calls (stopHeartbeat w) = setTimeout_calls w"
  by (simp_all add: stopHeartbeat_def clearTimeout_def split: option.splits)

lemma set_readyState_attempts [simp]:
  "reconnectAttempts (set_readyState h rs w) = reconnectAttempts w"
  "setTimeout_calls (set_readyState h rs w) = setTimeout_calls w"
  by (simp_all add: set_readyState_def split: option.splits)

lemma fire_timer_attempts [simp]:
  "reconnectAttempts (fire_timer t w) = reconnectAttempts w"
  "setTimeout_calls (fire_timer t w) = setTimeout_calls w"
  by (simp_all add: fire_timer_def clearTimeout_def Let_def split: timer_action.splits)

lemma fire_all_attempts [simp]:
  "reconnectAttempts (fire_all ts w) = reconnectAttempts w"
  "setTimeout_calls (fire_all ts w) = setTimeout_calls w"
  by (induction ts arbitrary: w) simp_all

lemma elapse_attempts [simp]:
  "reconnectAttempts (elapse d w) = reconnectAttempts w"
  "setTimeout_calls (elapse d w) = setTimeout_calls w"
  by (simp_all add: elapse_def Let_def)

lemma handleMessage_attempts [simp]:
  "reconnectAttempts (handleMessage data w) = reconnectAttempts w"
  "reconnect_delays (handleMessage data w) = reconnect_delays w"
  by (simp_all add: handleMessage_def handleStreamMessage_def notify_stream_def setTimeout_def
      reconnect_delays_def Let_def split: option.splits)

lemma sendMessage_attempts [simp]:
  "reconnectAttempts (snd (sendMessage c w)) = reconnectAttempts w"
  "setTimeout_calls (snd (sendMessage c w)) = setTimeout_calls w"
  by (simp_all add: sendMessage_def socket_send_def split: option.splits outcome.splits)

lemma ws_onerror_attempts [simp]:
  "reconnectAttempts (ws_onerror h w) = reconnectAttempts w"
  "setTimeout_calls (ws_onerror h w) = setTimeout_calls w"
  by (simp_all add: ws_onerror_def updateStatus_def Let_def)

lemma ws_onclose_attempts:
  "reconnectAttempts (ws_onclose h wasClean w) =
     (if \<not> wasClean \<and> reconnectAttempts w < maxReconnectAttempts
      then Suc (reconnectAttempts w) else reconnectAttempts w)"
  "reconnect_delays (ws_onclose h wasClean w) =
     (if \<not> wasClean \<and> reconnectAttempts w < maxReconnectAttempts
      then reconnect_delays w @ [reconnectInterval * Suc (reconnectAttempts w)]
      else reconnect_delays w)"
  by (simp_all add: ws_onclose_def scheduleReconnect_def setTimeout_def updateStatus_def
      reconnect_delays_def Let_def)

lemma step_attempts:
  assumes "\<not> resets_attempts e"
  shows "reconnectAttempts (step e w) =
           (if unclean_close e \<and> reconnectAttempts w < maxReconnectAttempts
            then Suc (reconnectAttempts w) else reconnectAttempts w)"
  using assms
  by (cases e; simp add: ws_onclose_attempts onStatusChange_def
      onMessage_def onError_def onStreamMessage_def removeListeners_def)

lemma step_delays:
  assumes "\<not> resets_attempts e"
  shows "reconnect_delays (step e w) =
           (if unclean_close e \<and> reconnectAttempts w < maxReconnectAttempts
            then reconnect_delays w @ [reconnectInterval * Suc (reconnectAttempts w)]
            else reconnect_delays w)"
  using assms
  by (cases e; simp add: ws_onclose_attempts;
      simp add: reconnect_delays_def onStatusChange_def onMessage_def onError_def
        onStreamMessage_def removeListeners_def)

lemma run_attempts:
  assumes "\<forall>e \<in> set es. \<not> resets_attempts e" "reconnectAttempts w \<le> maxReconnectAttempts"
  shows "reconnectAttempts (run es w) =
           min maxReconnectAttempts (reconnectAttempts w + length (filter unclean_close es)) \<and>
         reconnect_delays (run es w) =
           reconnect_delays w @
           map (\<lambda>k. reconnectInterval * k)
             [Suc (reconnectAttempts w) ..<
              Suc (min maxReconnectAttempts (reconnectAttempts w + length (filter unclean_close es)))]"
  using assms
proof (induction es arbitrary: w)
  case Nil
  then show ?case by simp
next
  case (Cons e es)
  from Cons.prems have e: "\<not> resets_attempts e" and es: "\<forall>e \<in> set es. \<not> resets_attempts e"
    by simp_all
  show ?case
  proof (cases "unclean_close e \<and> reconnectAttempts w < maxReconnectAttempts")
    case True
    then have a: "reconnectAttempts (step e w) = Suc (reconnectAttempts w)"
      and d: "reconnect_delays (step e w) =
                reconnect_delays w @ [reconnectInterval * Suc (reconnectAttempts w)]"
      using step_attempts [OF e, of w] step_delays [OF e, of w] by simp_all
    from True a have le: "reconnectAttempts (step e w) \<le> maxReconnectAttempts" by simp
    have lt: "Suc (reconnectAttempts w) <
         Suc (min maxReconnectAttempts (Suc (reconnectAttempts w + length (filter unclean_close es))))"
      using True by simp
    show ?thesis
      using Cons.IH [OF es le] True a d upt_conv_Cons [OF lt] by simp
  next
    case False
    then have a: "reconnectAttempts (step e w) = reconnectAttempts w"
      and d: "reconnect_delays (step e w) = reconnect_delays w"
      using step_attempts [OF e, of w] step_delays [OF e, of w] by simp_all
    from a Cons.prems have le: "reconnectAttempts (step e w) \<le> maxReconnectAttempts" by simp
    show ?thesis
    proof (cases "unclean_close e")
      case True
      with False Cons.prems(2) have full: "reconnectAttempts w = maxReconnectAttempts" by simp
      show ?thesis using Cons.IH [OF es le] a d True full by simp
    next
      case False
      show ?thesis using Cons.IH [OF es le] a d False by simp
    qed
  qed
qed

lemma disconnect_schedules_nothing:
  "setTimeout_calls (disconnect w) = setTimeout_calls w"
  "reconnectAttempts (disconnect w) = 0"
  by (simp_all add: disconnect_def stopReconnect_def socket_close_def clearTimeout_def
      updateStatus_def Let_def split: option.splits)

lemma disconnect_delays: "reconnect_delays (disconnect w) = reconnect_delays w"
  by (simp add: reconnect_delays_def disconnect_schedules_nothing)

text \<open>
  C4. From a manager with no reconnection attempt counted, along any events other
  than those that reset the count (a socket opening, \<open>disconnect\<close>, \<open>reconnect\<close>), the
  reconnection attempts scheduled are one for each unclean close up to the fifth, with
  the delays 3000, 6000, 9000, 12000 and 15000 milliseconds in this order, and none
  after the fifth. \<open>disconnect()\<close> followed by the clean close of the socket schedules
  no reconnection attempt.
\<close>

theorem reconnection_policy:
  assumes "reconnectAttempts w = 0" and "\<forall>e \<in> set es. \<not> resets_attempts e"
  shows "reconnect_delays (run es w) =
           reconnect_delays w @
           map (\<lambda>k. 3000 * k) [1 ..< Suc (min 5 (length (filter unclean_close es)))] \<and>
         reconnect_delays (run [Disconnect, SocketClose h True] w') = reconnect_delays w'"
proof -
  have "reconnectAttempts w \<le> maxReconnectAttempts" using assms(1) by simp
  from run_attempts [OF assms(2) this] assms(1)
  have "reconnect_delays (run es w) =
           reconnect_delays w @
           map (\<lambda>k. 3000 * k) [1 ..< Suc (min 5 (length (filter unclean_close es)))]"
    by (simp add: maxReconnectAttempts_def reconnectInterval_def)
  moreover have "reconnect_delays (run [Disconnect, SocketClose h True] w') = reconnect_delays w'"
    by (simp add: ws_onclose_attempts disconnect_delays)
  ultimately show ?thesis by simp
qed

theorem reconnection_policy_witness:
  "reconnect_delays
     (run [Connect (js ''t''), SocketError 0, SocketClose 0 False,
           Elapse 3000, SocketError 1, SocketClose 1 False,
           Elapse 6000, SocketError 2, SocketClose 2 False,
           Elapse 9000, SocketError 3, SocketClose 3 False,
           Elapse 12000, SocketError 4, SocketClose 4 False,
           Elapse 15000, SocketError 5, SocketClose 5 False,
           Elapse 18000] new_world) =
     [3000, 6000, 9000, 12000, 15000] \<and>
   reconnect_delays (run [Disconnect, SocketClose 0 True]
                       (run [Connect (js ''t''), SocketOpen 0] new_world)) = []"
proof -
  let ?es = "[Connect (js ''t''), SocketError 0, SocketClose 0 False,
           Elapse 3000, SocketError 1, SocketClose 1 False,
           Elapse 6000, SocketError 2, SocketClose 2 False,
           Elapse 9000, SocketError 3, SocketClose 3 False,
           Elapse 12000, SocketError 4, SocketClose 4 False,
           Elapse 15000, SocketError 5, SocketClose 5 False,
           Elapse 18000]"
  have 1: "reconnectAttempts new_world = 0" by (simp add: new_world_def)
  have 2: "\<forall>e \<in> set ?es. \<not> resets_attempts e" by simp
  have 3: "reconnect_delays new_world = []" by (simp add: reconnect_delays_def new_world_def)
  have 4: "reconnect_delays (run [Connect (js ''t''), SocketOpen 0] new_world) = []"
    by (simp add: reconnect_delays_def new_world_def ws_onopen_def startHeartbeat_def
        setInterval_def stopHeartbeat_def updateStatus_def set_readyState_def connect_def
        ws_readyState_def Let_def)
  have 5: "[1 ..< Suc (min 5 (length (filter unclean_close ?es)))] = [1, 2, 3, 4, 5]"
    by (simp add: upt_rec)
  show ?thesis
    using reconnection_policy [OF 1 2, of 0 "run [Connect (js ''t''), SocketOpen 0] new_world"]
    unfolding 3 4 5 by simp
qed

text \<open>
  C7. \<open>sendMessage(content)\<close> returns \<open>false\<close>, sending nothing, when there is no open
  connection; it returns \<open>true\<close> when the envelope of type \<open>message\<close> with the content
  and the time has been handed to the open socket; when something throws in sending,
  it returns \<open>false\<close>; and it never throws.
\<close>

theorem sendMessage_capability:
  "(ws_readyState w \<noteq> Some OPEN \<longrightarrow> sendMessage c w = (Returned False, w)) \<and>
   (ws w = Some h \<and> sockets w h = Some sk \<and> readyState sk = OPEN \<and> \<not> send_throws w \<longrightarrow>
      sendMessage c w =
        (Returned True,
         w\<lparr>sockets := (sockets w)(h \<mapsto> sk\<lparr>sent := sent sk @
             [\<lparr>env_type = js ''message'', env_content = c, env_timestamp = clock w,
               enable_multi_agent = True\<rparr>]\<rparr>)\<rparr>)) \<and>
   (send_throws w \<longrightarrow> sendMessage c w = (Returned False, w)) \<and>
   (\<forall>e. fst (sendMessage c w) \<noteq> Thrown e)"
  by (auto simp: sendMessage_def ws_readyState_def socket_send_def split: option.splits)

lemma open_world:
  "run [Connect (js ''t''), SocketOpen 0] new_world =
     new_world\<lparr>ws := Some 0, token := js ''t'', heartbeatTimer := Some 1,
       sockets := [0 \<mapsto> \<lparr>readyState = OPEN, sent = []\<rparr>], next_socket := 1,
       timers := [\<lparr>timer_id = 1, due = 30000, action = HeartbeatTick\<rparr>], next_timer := 2,
       settled := [Resolved]\<rparr>"
  by (simp add: new_world_def ws_onopen_def startHeartbeat_def heartbeatInterval_def
        setInterval_def stopHeartbeat_def updateStatus_def set_readyState_def connect_def
        ws_readyState_def Let_def js_def)

theorem sendMessage_capability_witness:
  "fst (sendMessage (js ''hi'') new_world) = Returned False \<and>
   fst (sendMessage (js ''hi'') (run [Connect (js ''t''), SocketOpen 0] new_world)) = Returned True \<and>
   map_option sent
     (sockets (snd (sendMessage (js ''hi'') (run [Connect (js ''t''), SocketOpen 0] new_world))) 0) =
     Some [\<lparr>env_type = js ''message'', env_content = js ''hi'', env_timestamp = 0,
            enable_multi_agent = True\<rparr>] \<and>
   fst (sendMessage (js ''hi'')
          (run [Connect (js ''t''), SocketOpen 0, SetSendThrows True] new_world)) = Returned False"
proof -
  let ?w = "run [Connect (js ''t''), SocketOpen 0] new_world"
  let ?wt = "run [Connect (js ''t''), SocketOpen 0, SetSendThrows True] new_world"
  have closed: "ws_readyState new_world \<noteq> Some OPEN"
    by (simp add: ws_readyState_def new_world_def)
  have opened: "ws ?w = Some 0 \<and> sockets ?w 0 = Some \<lparr>readyState = OPEN, sent = []\<rparr> \<and>
      readyState \<lparr>readyState = OPEN, sent = []\<rparr> = OPEN \<and> \<not> send_throws ?w"
    unfolding open_world by (simp add: new_world_def)
  have clk: "clock ?w = 0" unfolding open_world by (simp add: new_world_def)
  have "?wt = ?w\<lparr>send_throws := True\<rparr>" by simp
  then have throws: "send_throws ?wt" by simp
  from sendMessage_capability [of new_world "js ''hi''"] closed
  have a: "fst (sendMessage (js ''hi'') new_world) = Returned False" by simp
  from sendMessage_capability [of ?w "js ''hi''" 0 "\<lparr>readyState = OPEN, sent = []\<rparr>"] opened
  have b: "sendMessage (js ''hi'') ?w =
        (Returned True,
         ?w\<lparr>sockets := (sockets ?w)(0 \<mapsto> \<lparr>readyState = OPEN, sent = []\<rparr>\<lparr>sent := sent \<lparr>readyState = OPEN, sent = []\<rparr> @
             [\<lparr>env_type = js ''message'', env_content = js ''hi'', env_timestamp = clock ?w,
               enable_multi_agent = True\<rparr>]\<rparr>)\<rparr>)" by blast
  from sendMessage_capability [of ?wt "js ''hi''"] throws
  have c: "fst (sendMessage (js ''hi'') ?wt) = Returned False" by simp
  show ?thesis using a c unfolding b clk by simp
qed

end
